(* ===== verification/Prelude.thy ===== *)
theory Prelude
  imports Main "HOL-Library.Word"
begin

text \<open>
  Shared vocabulary of the development: machine integers, the \<open>Result\<close> type, Rust's
  saturating arithmetic, \<open>Duration\<close>, the \<open>HashSet::insert\<close> loop that looks for a
  repeated element, and the list lemmas the components share.

  Conventions. A \<open>u8/u16/u32/u64\<close> of the code is a word of that width; arithmetic on it
  wraps, which is what the release profile does. A \<open>usize\<close> that only counts or indexes
  the elements of a container is a natural number. \<open>Result<T, E>\<close> is the sum \<open>E + T\<close>,
  \<open>Err\<close> on the left.
\<close>

type_synonym u8 = "8 word"
type_synonym u16 = "16 word"
type_synonym u32 = "32 word"
type_synonym u64 = "64 word"

abbreviation Ok :: "'a \<Rightarrow> 'e + 'a" where
  "Ok \<equiv> Inr"

abbreviation Err :: "'e \<Rightarrow> 'e + 'a" where
  "Err \<equiv> Inl"

named_theorems word_to_nat \<open>rules that read word operations as natural numbers\<close>

named_theorems res_simps \<open>rules that unfold the Result plumbing\<close>

section \<open>Results\<close>

text \<open>The \<open>?\<close> operator: continue on \<open>Ok\<close>, return on \<open>Err\<close>.\<close>

definition and_then :: "'e + 'a \<Rightarrow> ('a \<Rightarrow> 'e + 'b) \<Rightarrow> 'e + 'b" where
  "and_then r k = (case r of Err e \<Rightarrow> Err e | Ok a \<Rightarrow> k a)"

definition map_err :: "('e \<Rightarrow> 'f) \<Rightarrow> 'e + 'a \<Rightarrow> 'f + 'a" where
  "map_err f r = (case r of Err e \<Rightarrow> Err (f e) | Ok a \<Rightarrow> Ok a)"

definition res_ok :: "'e + 'a \<Rightarrow> 'a option" where
  "res_ok r = (case r of Err _ \<Rightarrow> None | Ok a \<Rightarrow> Some a)"

lemma and_then_simps [simp]:
  "and_then (Err e) k = Err e"
  "and_then (Ok a) k = k a"
  by (simp_all add: and_then_def)

lemma map_err_simps [simp]:
  "map_err f (Err e) = Err (f e)"
  "map_err f (Ok a) = Ok a"
  by (simp_all add: map_err_def)

lemma res_ok_simps [simp]:
  "res_ok (Err e) = None"
  "res_ok (Ok a) = Some a"
  by (simp_all add: res_ok_def)

lemma and_then_eq_Ok [res_simps]:
  "and_then r k = Ok b \<longleftrightarrow> (\<exists>a. r = Ok a \<and> k a = Ok b)"
  by (cases r) auto

lemma map_err_eq_Ok [res_simps]: "map_err f r = Ok b \<longleftrightarrow> r = Ok b"
  by (cases r) auto

lemma map_err_eq_Err [res_simps]: "map_err f r = Err e \<longleftrightarrow> (\<exists>d. r = Err d \<and> e = f d)"
  by (cases r) auto

lemma res_ok_eq_Some [res_simps]: "res_ok r = Some a \<longleftrightarrow> r = Ok a"
  by (cases r) auto

lemma res_ok_eq_None [res_simps]: "res_ok r = None \<longleftrightarrow> (\<exists>e. r = Err e)"
  by (cases r) auto

lemma unit_result_cases:
  fixes r :: "'e + unit"
  obtains "r = Ok ()" | e where "r = Err e"
  by (cases r) auto

section \<open>Saturating arithmetic\<close>

definition sat_add :: "'a::len word \<Rightarrow> 'a word \<Rightarrow> 'a word" where
  "sat_add a b = (if unat a + unat b < 2 ^ LENGTH('a) then a + b else - 1)"

definition sat_sub :: "'a::len word \<Rightarrow> 'a word \<Rightarrow> 'a word" where
  "sat_sub a b = (if b \<le> a then a - b else 0)"

lemma unat_minus_one_word: "unat (- 1 :: 'a::len word) = 2 ^ LENGTH('a) - 1"
  by transfer (simp add: mask_eq_exp_minus_1 nat_diff_distrib nat_power_eq)

lemma unat_less_exp: "unat (w :: 'a::len word) < 2 ^ LENGTH('a)"
  by (rule unsigned_less)

lemma unat_ucast_32_64 [simp]: "unat (ucast (x :: u32) :: u64) = unat x"
  using unat_less_exp [of x] by (simp add: unsigned_ucast_eq take_bit_eq_mod)

lemma unat_sat_add [word_to_nat]:
  "unat (sat_add a b) = min (2 ^ LENGTH('a) - 1) (unat a + unat (b :: 'a::len word))"
  by (auto simp: sat_add_def unat_minus_one_word unat_word_ariths min_def)

lemma unat_sat_sub [word_to_nat]:
  "unat (sat_sub a b) = unat a - unat (b :: 'a::len word)"
  by (auto simp: sat_sub_def unat_sub word_le_nat_alt)

lemma unat_max_word [word_to_nat]:
  "unat (max a b) = max (unat a) (unat (b :: 'a::len word))"
  by (auto simp: max_def word_le_nat_alt)

text \<open>
  A chain of saturating additions gives the true sum, cut off once at the top of the
  range: the order of the additions does not matter.
\<close>

lemma sat_add_fold:
  "unat (foldl sat_add a bs) = min (2 ^ LENGTH('a) - 1) (unat (a :: 'a::len word) + sum_list (map unat bs))"
proof (induction bs arbitrary: a)
  case Nil
  have "unat a < 2 ^ LENGTH('a)" by (rule unsigned_less)
  then have "unat a \<le> 2 ^ LENGTH('a) - 1" by linarith
  then show ?case by (simp add: min_absorb2)
next
  case (Cons b bs)
  have "min m (min m x + y) = min m (x + y)" for m x y :: nat
    by (simp add: min_def)
  then show ?case by (simp only: foldl_Cons Cons.IH unat_sat_add list.map sum_list.Cons add.assoc)
qed

lemma sat_add_commute: "sat_add a b = sat_add b (a :: 'a::len word)"
  by (simp add: sat_add_def add.commute)

section \<open>Durations\<close>

text \<open>
  \<open>std::time::Duration\<close>, as its length in nanoseconds. The code compares durations,
  doubles them, takes minima and subtracts; none of the durations it builds by doubling
  reaches the type's range.
\<close>

datatype duration = Nanos (as_nanos: nat)

instantiation duration :: linorder
begin

definition less_eq_duration :: "duration \<Rightarrow> duration \<Rightarrow> bool" where
  "less_eq_duration a b \<longleftrightarrow> as_nanos a \<le> as_nanos b"

definition less_duration :: "duration \<Rightarrow> duration \<Rightarrow> bool" where
  "less_duration a b \<longleftrightarrow> as_nanos a < as_nanos b"

instance
  by standard (auto simp: less_eq_duration_def less_duration_def duration.expand)

end

definition from_millis :: "nat \<Rightarrow> duration" where
  "from_millis n = Nanos (n * 1000000)"

definition from_secs :: "nat \<Rightarrow> duration" where
  "from_secs n = Nanos (n * 1000000000)"

definition dur_mul :: "duration \<Rightarrow> nat \<Rightarrow> duration" where
  "dur_mul d k = Nanos (as_nanos d * k)"

definition dur_checked_sub :: "duration \<Rightarrow> duration \<Rightarrow> duration option" where
  "dur_checked_sub a b = (if b \<le> a then Some (Nanos (as_nanos a - as_nanos b)) else None)"

definition dur_saturating_sub :: "duration \<Rightarrow> duration \<Rightarrow> duration" where
  "dur_saturating_sub a b = Nanos (as_nanos a - as_nanos b)"

lemmas duration_simps =
  from_millis_def from_secs_def dur_mul_def less_eq_duration_def less_duration_def

lemma as_nanos_min: "as_nanos (min a b) = min (as_nanos a) (as_nanos b)"
  by (simp add: min_def less_eq_duration_def)

section \<open>The loop that inserts into a HashSet and stops at a repeated element\<close>

fun first_dup :: "'a set \<Rightarrow> 'a list \<Rightarrow> 'a option" where
  "first_dup seen [] = None"
| "first_dup seen (x # xs) = (if x \<in> seen then Some x else first_dup (insert x seen) xs)"

lemma first_dup_None_iff:
  "first_dup seen xs = None \<longleftrightarrow> distinct xs \<and> set xs \<inter> seen = {}"
  by (induction xs arbitrary: seen) auto

lemma first_dup_SomeD: "first_dup seen xs = Some x \<Longrightarrow> x \<in> set xs"
  by (induction xs arbitrary: seen) (auto split: if_splits)

lemma first_dup_Some_count:
  "first_dup seen xs = Some x \<Longrightarrow> x \<in> seen \<or> 2 \<le> count_list xs x"
proof (induction xs arbitrary: seen)
  case (Cons y xs)
  show ?case
  proof (cases "y \<in> seen")
    case False
    then have dup: "first_dup (insert y seen) xs = Some x" using Cons.prems by simp
    then have "x \<in> set xs" by (rule first_dup_SomeD)
    then have "1 \<le> count_list xs x" by (simp add: count_list_0_iff Suc_le_eq neq0_conv [symmetric])
    with Cons.IH [OF dup] show ?thesis by auto
  qed (use Cons.prems in auto)
qed simp

lemma first_dup_empty_None: "first_dup {} xs = None \<longleftrightarrow> distinct xs"
  by (simp add: first_dup_None_iff)

section \<open>Lists\<close>

lemma find_Some_iff_hd: "find P xs = Some x \<Longrightarrow> x \<in> set xs \<and> P x"
  by (induction xs) (auto split: if_splits)

lemma find_None_iff_all: "find P xs = None \<longleftrightarrow> (\<forall>x \<in> set xs. \<not> P x)"
  by (induction xs) auto

lemma find_unique:
  "distinct (map f xs) \<Longrightarrow> x \<in> set xs \<Longrightarrow> find (\<lambda>y. f y = f x) xs = Some x"
  by (induction xs) force+

lemma find_app_notin:
  "(\<forall>x \<in> set xs. \<not> P x) \<Longrightarrow> find P (xs @ ys) = find P ys"
  by (induction xs) auto

lemma find_append: "find P (xs @ ys) = (case find P xs of None \<Rightarrow> find P ys | Some x \<Rightarrow> Some x)"
  by (induction xs) auto

lemma find_filter:
  "find P (filter Q xs) = find (\<lambda>x. Q x \<and> P x) xs"
  by (induction xs) auto

lemma sum_list_filter_le: "sum_list (map f (filter P xs)) \<le> (sum_list (map f xs) :: nat)"
  by (induction xs) auto

lemma sum_list_take_le: "sum_list (take n xs) \<le> (sum_list xs :: nat)"
proof -
  have "sum_list (take n xs) + sum_list (drop n xs) = sum_list xs"
    by (metis append_take_drop_id sum_list.append)
  then show ?thesis by linarith
qed

lemma sum_list_bound: "(\<forall>x \<in> set xs. f x \<le> (b::nat)) \<Longrightarrow> sum_list (map f xs) \<le> length xs * b"
  by (induction xs) auto

end
