(* ===== verification/RustStr.thy ===== *)
theory RustStr
  imports Prelude "HOL-Library.Sublist"
begin

text \<open>
  The parts of Rust's \<open>str\<close> and integer formatting the program uses. A \<open>String\<close> is the
  list of its UTF-8 bytes (a \<open>char\<close> of HOL is one byte), so \<open>length\<close> is \<open>str::len\<close>.
  Here are \<open>trim\<close>, \<open>strip_prefix\<close>, \<open>strip_suffix\<close>, \<open>split_once\<close>, \<open>split\<close>,
  \<open>from_str_radix\<close> with its three errors, the decimal and the zero-padded
  hexadecimal rendering of unsigned integers, and their round trips.
\<close>

section \<open>Bytes\<close>

abbreviation byte :: "char \<Rightarrow> nat" where
  "byte c \<equiv> of_char c"

definition is_ascii_digit :: "char \<Rightarrow> bool" where
  "is_ascii_digit c \<longleftrightarrow> 48 \<le> byte c \<and> byte c \<le> 57"

definition is_ascii_lowercase :: "char \<Rightarrow> bool" where
  "is_ascii_lowercase c \<longleftrightarrow> 97 \<le> byte c \<and> byte c \<le> 122"

definition is_ascii_graphic :: "char \<Rightarrow> bool" where
  "is_ascii_graphic c \<longleftrightarrow> 33 \<le> byte c \<and> byte c \<le> 126"

lemma digit_graphic: "is_ascii_digit c \<Longrightarrow> is_ascii_graphic c"
  by (simp add: is_ascii_digit_def is_ascii_graphic_def)

lemma lowercase_graphic: "is_ascii_lowercase c \<Longrightarrow> is_ascii_graphic c"
  by (simp add: is_ascii_lowercase_def is_ascii_graphic_def)

section \<open>Trimming\<close>

text \<open>The characters with the Unicode property White_Space, in UTF-8.\<close>

definition white_space :: "string list" where
  "white_space =
     [[CHR 0x09], [CHR 0x0A], [CHR 0x0B], [CHR 0x0C], [CHR 0x0D], [CHR 0x20],
      [CHR 0xC2, CHR 0x85], [CHR 0xC2, CHR 0xA0], [CHR 0xE1, CHR 0x9A, CHR 0x80],
      [CHR 0xE2, CHR 0x80, CHR 0x80], [CHR 0xE2, CHR 0x80, CHR 0x81],
      [CHR 0xE2, CHR 0x80, CHR 0x82], [CHR 0xE2, CHR 0x80, CHR 0x83],
      [CHR 0xE2, CHR 0x80, CHR 0x84], [CHR 0xE2, CHR 0x80, CHR 0x85],
      [CHR 0xE2, CHR 0x80, CHR 0x86], [CHR 0xE2, CHR 0x80, CHR 0x87],
      [CHR 0xE2, CHR 0x80, CHR 0x88], [CHR 0xE2, CHR 0x80, CHR 0x89],
      [CHR 0xE2, CHR 0x80, CHR 0x8A], [CHR 0xE2, CHR 0x80, CHR 0xA8],
      [CHR 0xE2, CHR 0x80, CHR 0xA9], [CHR 0xE2, CHR 0x80, CHR 0xAF],
      [CHR 0xE2, CHR 0x81, CHR 0x9F], [CHR 0xE3, CHR 0x80, CHR 0x80]]"

lemma white_space_nonempty: "w \<in> set white_space \<Longrightarrow> w \<noteq> []"
  by (auto simp: white_space_def)

lemma white_space_not_graphic:
  "w \<in> set white_space \<Longrightarrow> \<not> is_ascii_graphic (hd w) \<and> \<not> is_ascii_graphic (last w)"
  by (auto simp: white_space_def is_ascii_graphic_def)

function trim_start :: "string \<Rightarrow> string" where
  "trim_start s =
     (case find (\<lambda>w. prefix w s) white_space of
        None \<Rightarrow> s
      | Some w \<Rightarrow> trim_start (drop (length w) s))"
  by pat_completeness auto
termination
proof (relation "measure length")
  fix s w
  assume "find (\<lambda>w. prefix w s) white_space = Some w"
  then have "w \<in> set white_space" "prefix w s"
    by (auto dest: find_Some_iff_hd)
  then show "(drop (length w) s, s) \<in> measure length"
    using white_space_nonempty by (auto simp: prefix_def)
qed simp

function trim_end :: "string \<Rightarrow> string" where
  "trim_end s =
     (case find (\<lambda>w. suffix w s) white_space of
        None \<Rightarrow> s
      | Some w \<Rightarrow> trim_end (take (length s - length w) s))"
  by pat_completeness auto
termination
proof (relation "measure length")
  fix s w
  assume "find (\<lambda>w. suffix w s) white_space = Some w"
  then have "w \<in> set white_space" "suffix w s"
    by (auto dest: find_Some_iff_hd)
  then show "(take (length s - length w) s, s) \<in> measure length"
    using white_space_nonempty by (auto simp: suffix_def)
qed simp

declare trim_start.simps [simp del] trim_end.simps [simp del]

definition trim :: "string \<Rightarrow> string" where
  "trim s = trim_end (trim_start s)"

lemma trim_start_graphic:
  assumes "s = [] \<or> is_ascii_graphic (hd s)"
  shows "trim_start s = s"
proof -
  have "find (\<lambda>w. prefix w s) white_space = None"
    using assms white_space_nonempty white_space_not_graphic
    by (fastforce simp: find_None_iff_all prefix_def neq_Nil_conv)
  then show ?thesis by (subst trim_start.simps) simp
qed

lemma trim_end_graphic:
  assumes "s = [] \<or> is_ascii_graphic (last s)"
  shows "trim_end s = s"
proof -
  have "\<not> suffix w s" if "w \<in> set white_space" for w
    using that assms white_space_nonempty [OF that] white_space_not_graphic [OF that]
    by (auto simp: suffix_def)
  then have "find (\<lambda>w. suffix w s) white_space = None"
    by (simp add: find_None_iff_all)
  then show ?thesis by (subst trim_end.simps) simp
qed

lemma trim_graphic:
  "s = [] \<or> (is_ascii_graphic (hd s) \<and> is_ascii_graphic (last s)) \<Longrightarrow> trim s = s"
  by (auto simp: trim_def trim_start_graphic trim_end_graphic)

section \<open>Prefixes, suffixes, separators\<close>

definition strip_suffix :: "string \<Rightarrow> string \<Rightarrow> string option" where
  "strip_suffix suf s = (if suffix suf s then Some (take (length s - length suf) s) else None)"

definition strip_prefix :: "string \<Rightarrow> string \<Rightarrow> string option" where
  "strip_prefix pre s = (if prefix pre s then Some (drop (length pre) s) else None)"

lemma strip_suffix_append [simp]: "strip_suffix suf (s @ suf) = Some s"
  by (simp add: strip_suffix_def suffix_def)

lemma strip_suffix_Some: "strip_suffix suf s = Some t \<longleftrightarrow> s = t @ suf"
  by (auto simp: strip_suffix_def suffix_def)

lemma strip_prefix_Some: "strip_prefix pre s = Some t \<longleftrightarrow> s = pre @ t"
  by (auto simp: strip_prefix_def prefix_def)

definition split_once :: "char \<Rightarrow> string \<Rightarrow> (string \<times> string) option" where
  "split_once c s =
     (case dropWhile (\<lambda>x. x \<noteq> c) s of
        [] \<Rightarrow> None
      | _ # rest \<Rightarrow> Some (takeWhile (\<lambda>x. x \<noteq> c) s, rest))"

lemma split_once_append:
  assumes "c \<notin> set a"
  shows "split_once c (a @ c # b) = Some (a, b)"
proof -
  have "dropWhile (\<lambda>x. x \<noteq> c) (a @ c # b) = c # b" "takeWhile (\<lambda>x. x \<noteq> c) (a @ c # b) = a"
    using assms by (induction a) auto
  then show ?thesis by (simp add: split_once_def)
qed

fun split_on :: "char \<Rightarrow> string \<Rightarrow> string list" where
  "split_on c [] = [[]]"
| "split_on c (x # xs) =
     (if x = c then [] # split_on c xs
      else (case split_on c xs of [] \<Rightarrow> [[x]] | w # ws \<Rightarrow> (x # w) # ws))"

lemma split_on_nonempty: "split_on c s \<noteq> []"
  by (induction s) (auto split: list.splits)

lemma split_on_plain: "c \<notin> set w \<Longrightarrow> split_on c w = [w]"
  by (induction w) auto

lemma split_on_append: "split_on c (a @ c # b) = split_on c a @ split_on c b"
proof (induction a)
  case (Cons x a)
  then show ?case using split_on_nonempty [of c a] by (auto simp: neq_Nil_conv)
qed simp

text \<open>A string between single quotes, as the messages of the program have it.\<close>

definition quoted :: "string \<Rightarrow> string" where
  "quoted s = [CHR 0x27] @ s @ [CHR 0x27]"

fun join :: "string \<Rightarrow> string list \<Rightarrow> string" where
  "join sep [] = []"
| "join sep [s] = s"
| "join sep (s # t # ts) = s @ sep @ join sep (t # ts)"

section \<open>Unsigned integers from text\<close>

text \<open>\<open>char::to_digit\<close>: digits, then letters of either case, below the radix.\<close>

definition to_digit :: "nat \<Rightarrow> char \<Rightarrow> nat option" where
  "to_digit radix c =
     (let b = byte c;
          v = (if 48 \<le> b \<and> b \<le> 57 then b - 48
               else if 97 \<le> b \<and> b \<le> 122 then b - 87
               else if 65 \<le> b \<and> b \<le> 90 then b - 55
               else radix)
      in if v < radix then Some v else None)"

datatype int_error = EmptyInt | InvalidDigit | PosOverflow

text \<open>\<open>std::num::ParseIntError\<close> as it displays.\<close>

fun int_error_msg :: "int_error \<Rightarrow> string" where
  "int_error_msg EmptyInt = ''cannot parse integer from empty string''"
| "int_error_msg InvalidDigit = ''invalid digit found in string''"
| "int_error_msg PosOverflow = ''number too large to fit in target type''"

fun parse_digits :: "nat \<Rightarrow> nat \<Rightarrow> nat \<Rightarrow> string \<Rightarrow> int_error + nat" where
  "parse_digits bits radix acc [] = Ok acc"
| "parse_digits bits radix acc (c # cs) =
     (case to_digit radix c of
        None \<Rightarrow> Err InvalidDigit
      | Some d \<Rightarrow>
          if 2 ^ bits \<le> acc * radix then Err PosOverflow
          else if 2 ^ bits \<le> acc * radix + d then Err PosOverflow
          else parse_digits bits radix (acc * radix + d) cs)"

text \<open>
  \<open>u64::from_str_radix\<close> and its narrower kin: a lone sign is no number, one leading
  plus sign is accepted, a minus sign is an invalid digit of an unsigned type.
\<close>

definition from_str_radix :: "nat \<Rightarrow> nat \<Rightarrow> string \<Rightarrow> int_error + nat" where
  "from_str_radix bits radix s =
     (case s of
        [] \<Rightarrow> Err EmptyInt
      | c # cs \<Rightarrow>
          if (c = CHR ''+'' \<or> c = CHR ''-'') \<and> cs = [] then Err InvalidDigit
          else if c = CHR ''+'' then parse_digits bits radix 0 cs
          else parse_digits bits radix 0 s)"

definition parse_u64 :: "string \<Rightarrow> int_error + nat" where
  "parse_u64 s = from_str_radix 64 10 s"

definition parse_u32 :: "string \<Rightarrow> int_error + nat" where
  "parse_u32 s = from_str_radix 32 10 s"

text \<open>The value of a digit string, without the range checks.\<close>

definition digits_value :: "nat \<Rightarrow> nat \<Rightarrow> string \<Rightarrow> nat" where
  "digits_value radix acc s = foldl (\<lambda>a c. a * radix + the (to_digit radix c)) acc s"

lemma digits_value_simps [simp]:
  "digits_value radix acc [] = acc"
  "digits_value radix acc (c # cs) = digits_value radix (acc * radix + the (to_digit radix c)) cs"
  "digits_value radix acc (s @ t) = digits_value radix (digits_value radix acc s) t"
  by (simp_all add: digits_value_def)

lemma digits_value_ge: "0 < radix \<Longrightarrow> acc \<le> digits_value radix acc s"
proof (induction s arbitrary: acc)
  case (Cons c s)
  have "acc \<le> acc * radix + the (to_digit radix c)"
    using Cons.prems by (cases radix) auto
  also have "\<dots> \<le> digits_value radix (acc * radix + the (to_digit radix c)) s"
    using Cons by blast
  finally show ?case by simp
qed simp

lemma parse_digits_Ok_iff:
  assumes "0 < radix" "acc < 2 ^ bits"
  shows "parse_digits bits radix acc s = Ok v \<longleftrightarrow>
    (\<forall>c \<in> set s. to_digit radix c \<noteq> None) \<and> v = digits_value radix acc s \<and> v < 2 ^ bits"
  using assms(2)
proof (induction s arbitrary: acc)
  case (Cons c s)
  show ?case
  proof (cases "to_digit radix c")
    case (Some d)
    have ge: "acc * radix + d \<le> digits_value radix (acc * radix + d) s"
      using assms(1) by (rule digits_value_ge)
    show ?thesis
    proof (cases "acc * radix + d < 2 ^ bits")
      case True
      then show ?thesis using Some Cons.IH by auto
    next
      case False
      then show ?thesis using Some ge by auto
    qed
  qed auto
qed auto

lemma parse_digits_less: "acc < 2 ^ bits \<Longrightarrow> parse_digits bits radix acc s = Ok v \<Longrightarrow> v < 2 ^ bits"
proof (induction s arbitrary: acc)
  case (Cons c s)
  then obtain d where "to_digit radix c = Some d" "acc * radix + d < 2 ^ bits"
      "parse_digits bits radix (acc * radix + d) s = Ok v"
    by (auto simp: not_le split: option.splits if_splits)
  then show ?case using Cons.IH by blast
qed simp

lemma from_str_radix_less: "from_str_radix bits radix s = Ok v \<Longrightarrow> v < 2 ^ bits"
  using parse_digits_less [of 0 bits radix _ v]
  by (auto simp: from_str_radix_def simp del: parse_digits.simps split: list.splits if_splits)

section \<open>Unsigned integers to text\<close>

definition digit_char :: "nat \<Rightarrow> char" where
  "digit_char n = char_of (if n < 10 then 48 + n else 87 + n)"

lemma byte_digit_char: "n < 16 \<Longrightarrow> byte (digit_char n) = (if n < 10 then 48 + n else 87 + n)"
  by (simp add: digit_char_def)

lemma to_digit_digit_char: "n < radix \<Longrightarrow> n < 16 \<Longrightarrow> to_digit radix (digit_char n) = Some n"
  by (auto simp: to_digit_def byte_digit_char Let_def)

lemma digit_char_decimal: "n < 10 \<Longrightarrow> is_ascii_digit (digit_char n)"
  by (simp add: is_ascii_digit_def byte_digit_char)

text \<open>\<open>Display\<close> of an unsigned integer.\<close>

fun show_nat :: "nat \<Rightarrow> string" where
  "show_nat n = (if n < 10 then [digit_char n] else show_nat (n div 10) @ [digit_char (n mod 10)])"

declare show_nat.simps [simp del]

lemma show_nat_nonempty: "show_nat n \<noteq> []"
  by (subst show_nat.simps) simp

lemma show_nat_digits: "\<forall>c \<in> set (show_nat n). is_ascii_digit c"
proof (induction n rule: show_nat.induct)
  case (1 n)
  then show ?case
    by (subst show_nat.simps) (auto simp: digit_char_decimal)
qed

lemma show_nat_value: "digits_value 10 0 (show_nat n) = n"
proof (induction n rule: show_nat.induct)
  case (1 n)
  then show ?case
    by (subst show_nat.simps) (auto simp: to_digit_digit_char)
qed

lemma digit_to_digit: "is_ascii_digit c \<Longrightarrow> to_digit 10 c \<noteq> None"
  by (auto simp: is_ascii_digit_def to_digit_def Let_def)

lemma digit_not_sign: "is_ascii_digit c \<Longrightarrow> c \<noteq> CHR ''+'' \<and> c \<noteq> CHR ''-''"
  by (auto simp: is_ascii_digit_def)

lemma from_str_radix_digits:
  assumes "s \<noteq> []" "hd s \<noteq> CHR ''+''" "hd s \<noteq> CHR ''-''"
  shows "from_str_radix bits radix s = parse_digits bits radix 0 s"
  using assms by (auto simp: from_str_radix_def split: list.splits)

lemma parse_show_nat: "n < 2 ^ bits \<Longrightarrow> from_str_radix bits 10 (show_nat n) = Ok n"
  using show_nat_digits [of n] show_nat_nonempty [of n] show_nat_value [of n]
  by (simp add: from_str_radix_digits parse_digits_Ok_iff digit_not_sign digit_to_digit)

text \<open>\<open>{:016x}\<close>: sixteen hexadecimal digits, most significant first.\<close>

fun hex_fixed :: "nat \<Rightarrow> nat \<Rightarrow> string" where
  "hex_fixed 0 v = []"
| "hex_fixed (Suc k) v = hex_fixed k (v div 16) @ [digit_char (v mod 16)]"

definition hex16 :: "u64 \<Rightarrow> string" where
  "hex16 w = hex_fixed 16 (unat w)"

lemma length_hex_fixed [simp]: "length (hex_fixed k v) = k"
  by (induction k arbitrary: v) auto

lemma length_hex16 [simp]: "length (hex16 w) = 16"
  by (simp add: hex16_def)

lemma hex_fixed_digits: "c \<in> set (hex_fixed k v) \<Longrightarrow> \<exists>n < 16. c = digit_char n"
proof (induction k arbitrary: v)
  case (Suc k)
  have "v mod 16 < 16" by simp
  moreover from Suc.prems have "c \<in> set (hex_fixed k (v div 16)) \<or> c = digit_char (v mod 16)"
    by auto
  ultimately show ?case using Suc.IH by blast
qed simp

lemma hex_fixed_value: "v < 16 ^ k \<Longrightarrow> digits_value 16 0 (hex_fixed k v) = v"
proof (induction k arbitrary: v)
  case (Suc k)
  then have "v div 16 < 16 ^ k" by (simp add: less_mult_imp_div_less mult.commute)
  then show ?case using Suc.IH by (simp add: to_digit_digit_char)
qed simp

lemma hex_digit_not_sign: "n < 16 \<Longrightarrow> digit_char n \<noteq> CHR ''+'' \<and> digit_char n \<noteq> CHR ''-''"
proof -
  assume "n < 16"
  then have "48 \<le> byte (digit_char n)" by (simp add: byte_digit_char)
  then show ?thesis by auto
qed

lemma dash_notin_hex16: "CHR ''-'' \<notin> set (hex16 w)"
  using hex_digit_not_sign hex_fixed_digits unfolding hex16_def by metis

lemma parse_hex16: "from_str_radix 64 16 (hex16 w) = Ok (unat w)"
proof -
  have ne: "hex16 w \<noteq> []" using length_hex16 [of w] by fastforce
  have digits: "\<exists>n < 16. c = digit_char n" if "c \<in> set (hex16 w)" for c
    using that by (auto simp: hex16_def dest: hex_fixed_digits)
  have "unat w < 2 ^ 64" using unsigned_less [of w] by simp
  then have val: "digits_value 16 0 (hex16 w) = unat w"
    by (simp add: hex16_def hex_fixed_value)
  have "hd (hex16 w) \<in> set (hex16 w)" using ne by simp
  then have "hd (hex16 w) \<noteq> CHR ''+'' \<and> hd (hex16 w) \<noteq> CHR ''-''"
    using digits hex_digit_not_sign by metis
  moreover have "\<forall>c \<in> set (hex16 w). to_digit 16 c \<noteq> None"
    using digits by (fastforce simp: to_digit_digit_char)
  ultimately show ?thesis
    using ne val \<open>unat w < 2 ^ 64\<close> by (simp add: from_str_radix_digits parse_digits_Ok_iff)
qed

end
