(* ===== verification/ConfigModel.thy ===== *)
theory ConfigModel
  imports RustStr
begin

text \<open>
  The configuration data of \<open>src/common/src/config/model.rs\<close>: the frontend block, the
  exporter entries, the flow rules with their fields, the logging block, and their
  defaults. Deserialisation itself is serde's and stays outside the model.
\<close>

section \<open>Frontend block\<close>

record frontend_config =
  fc_polling_interval_ms :: u64
  fc_backend_socket :: string
  fc_control_socket :: string
  fc_vpp_stats_socket :: string
  fc_startup_timeout :: string
  fc_shutdown_grace_ms :: u64

definition default_frontend_config :: frontend_config where
  "default_frontend_config =
     \<lparr> fc_polling_interval_ms = 1000,
       fc_backend_socket = ''/run/infmon/backend.sock'',
       fc_control_socket = ''/run/infmon/frontend.sock'',
       fc_vpp_stats_socket = ''/run/vpp/stats.sock'',
       fc_startup_timeout = ''5s'',
       fc_shutdown_grace_ms = 2000 \<rparr>"

section \<open>Exporter entries\<close>

text \<open>
  The exporter-specific keys hold YAML values. A string is itself; any other value is
  known only through the two questions the program asks serde_yaml about it: what
  \<open>as_str\<close> answers and what \<open>to_string\<close> renders (\<open>None\<close> when it fails). The
  \<open>HashMap\<close> of keys is the list of its entries in iteration order.
\<close>

datatype yaml_value =
    YString string
  | YOther (yo_as_str: "string option") (yo_to_string: "string option")

fun yaml_as_str :: "yaml_value \<Rightarrow> string option" where
  "yaml_as_str (YString s) = Some s"
| "yaml_as_str (YOther a _) = a"

record exporter_entry =
  ee_kind :: string
  ee_name :: string
  ee_queue_depth :: nat
  ee_export_timeout :: string
  ee_on_overflow :: string
  ee_extra :: "(string \<times> yaml_value) list"

section \<open>Flow rules\<close>

datatype field = SrcIp | DstIp | IpProto | Dscp | MirrorSrcIp | SrcPort | DstPort

fun field_width :: "field \<Rightarrow> u32" where
  "field_width SrcIp = 16"
| "field_width DstIp = 16"
| "field_width MirrorSrcIp = 16"
| "field_width IpProto = 1"
| "field_width Dscp = 1"
| "field_width SrcPort = 2"
| "field_width DstPort = 2"

text \<open>The derived \<open>Debug\<close> of a field is its variant's name.\<close>

fun field_debug :: "field \<Rightarrow> string" where
  "field_debug SrcIp = ''SrcIp''"
| "field_debug DstIp = ''DstIp''"
| "field_debug IpProto = ''IpProto''"
| "field_debug Dscp = ''Dscp''"
| "field_debug MirrorSrcIp = ''MirrorSrcIp''"
| "field_debug SrcPort = ''SrcPort''"
| "field_debug DstPort = ''DstPort''"

datatype eviction_policy = LruDrop

record flow_rule =
  fr_name :: string
  fr_fields :: "field list"
  fr_max_keys :: u32
  fr_eviction_policy :: eviction_policy

section \<open>Logging block\<close>

datatype log_type = Syslog | LogFile

datatype log_level = Trace | Debug | Info | Warn | Error

datatype rotation = Daily | Hourly | Never

record log_file_config =
  lf_path :: string
  lf_rotation :: rotation

record logging_config =
  lc_level :: log_level
  lc_destination :: log_type
  lc_file :: "log_file_config option"

definition default_logging_config :: logging_config where
  "default_logging_config = \<lparr> lc_level = Info, lc_destination = Syslog, lc_file = None \<rparr>"

section \<open>Top level\<close>

record config =
  cfg_frontend :: "frontend_config option"
  cfg_flow_rules :: "flow_rule list"
  cfg_exporters :: "exporter_entry list option"
  cfg_logging :: "logging_config option"

text \<open>The width of a key over a list of fields, in bytes.\<close>

definition key_width :: "field list \<Rightarrow> u32" where
  "key_width fs = sum_list (map field_width fs)"

abbreviation all_fields :: "field list" where
  "all_fields \<equiv> [SrcIp, DstIp, IpProto, Dscp, MirrorSrcIp, SrcPort, DstPort]"

lemma set_all_fields: "set fs \<subseteq> set all_fields"
  using field.exhaust by auto

lemma distinct_fields_length:
  fixes fs :: "field list"
  shows "distinct fs \<Longrightarrow> length fs \<le> 7"
proof -
  assume "distinct fs"
  then have "length fs = card (set fs)" by (simp add: distinct_card)
  also have "\<dots> \<le> card (set all_fields)"
    by (rule card_mono [OF _ set_all_fields]) simp
  also have "\<dots> = 7" by simp
  finally show ?thesis .
qed

lemma unat_field_width_pos: "0 < unat (field_width f)"
  by (cases f) simp_all

text \<open>
  A key over pairwise different fields is at most 54 bytes wide: three addresses, two
  single bytes and two ports.
\<close>

lemma distinct_fields_width_nat:
  assumes "distinct fs"
  shows "sum_list (map (unat \<circ> field_width) fs) \<le> 54"
proof -
  have "sum_list (map (unat \<circ> field_width) fs) = (\<Sum>f \<in> set fs. (unat \<circ> field_width) f)"
    using assms by (simp only: sum_list_distinct_conv_sum_set)
  also have "\<dots> \<le> (\<Sum>f \<in> set all_fields. (unat \<circ> field_width) f)"
    by (rule sum_mono2) (use set_all_fields in auto)
  also have "\<dots> = 54" by simp
  finally show ?thesis .
qed

lemma unat_key_width:
  "sum_list (map (unat \<circ> field_width) fs) < 2 ^ 32 \<Longrightarrow>
   unat (key_width fs) = sum_list (map (unat \<circ> field_width) fs)"
proof (induction fs)
  case (Cons f fs)
  then show ?case by (simp add: key_width_def unat_word_ariths)
qed (simp add: key_width_def)

lemma distinct_key_width: "distinct fs \<Longrightarrow> unat (key_width fs) \<le> 54"
  using distinct_fields_width_nat [of fs] unat_key_width [of fs] by simp

end
