(* ===== verification/Validate.thy ===== *)
theory Validate
  imports ConfigModel
begin

text \<open>
  \<open>src/common/src/config/validate.rs\<close>: the validation of names, durations, rules, the
  frontend block, exporter entries, the logging block and a whole configuration, every
  early return a branch. The predicates \<open>name_ok\<close>, \<open>rule_ok\<close>, \<open>exporter_ok\<close>, \<dots>
  state what a valid configuration is without the order of the checks; the lemmas show
  that validation accepts exactly those.
\<close>

section \<open>Constants and errors\<close>

definition MAX_KEY_WIDTH :: u32 where
  "MAX_KEY_WIDTH = 64"

definition MAX_KEYS_BUDGET :: u32 where
  "MAX_KEYS_BUDGET = 16 * 1024 * 1024"

definition NAME_MAX_LEN :: nat where
  "NAME_MAX_LEN = 31"

definition NAME_MIN_LEN :: nat where
  "NAME_MIN_LEN = 2"

definition KNOWN_EXPORTER_TYPES :: "string list" where
  "KNOWN_EXPORTER_TYPES = [''otlp'']"

definition VALID_OVERFLOW_POLICIES :: "string list" where
  "VALID_OVERFLOW_POLICIES = [''drop_newest'']"

definition MAX_QUEUE_DEPTH :: nat where
  "MAX_QUEUE_DEPTH = 10000"

definition FLOW_RULE_SET_MAX :: nat where
  "FLOW_RULE_SET_MAX = 16"

datatype validation_error =
    DuplicateName string
  | EmptyFields string
  | DuplicateField string field
  | ZeroMaxKeys string
  | MaxKeysExceedsBudget string u32
  | KeyWidthExceeded string u32
  | BudgetExceeded u64
  | TooManyRules nat nat
  | InvalidName string
  | ZeroPollingInterval
  | ZeroShutdownGrace
  | InvalidStartupTimeout string
  | EmptyExporterType string
  | UnknownExporterType string string string
  | EmptyExporterName nat
  | DuplicateExporterName string
  | ZeroQueueDepth string
  | QueueDepthTooLarge string nat nat
  | InvalidExportTimeout string string
  | InvalidOverflowPolicy string string string
  | ZeroStartupTimeout
  | ZeroExportTimeout string
  | InvalidExporterName string
  | MissingOtlpEndpoint string
  | MissingLogFileConfig
  | EmptyLogFilePath
  | SyslogWithFileConfig

lemmas validate_consts =
  MAX_KEY_WIDTH_def MAX_KEYS_BUDGET_def NAME_MAX_LEN_def NAME_MIN_LEN_def
  KNOWN_EXPORTER_TYPES_def VALID_OVERFLOW_POLICIES_def MAX_QUEUE_DEPTH_def
  FLOW_RULE_SET_MAX_def

section \<open>Messages\<close>

definition name_shape :: string where
  "name_shape = ''must match ^[a-z0-9][a-z0-9_-]{1,30}$''"

text \<open>The error as it displays; the debug rendering of a string is an argument.\<close>

fun validation_error_msg :: "(string \<Rightarrow> string) \<Rightarrow> validation_error \<Rightarrow> string" where
  "validation_error_msg dbg (DuplicateName n) = ''duplicate flow-rule name: '' @ n"
| "validation_error_msg dbg (EmptyFields n) = ''flow-rule '' @ quoted n @ '': fields list is empty''"
| "validation_error_msg dbg (DuplicateField n f) =
     ''flow-rule '' @ quoted n @ '': duplicate field '' @ field_debug f"
| "validation_error_msg dbg (ZeroMaxKeys n) = ''flow-rule '' @ quoted n @ '': max_keys must be >= 1''"
| "validation_error_msg dbg (MaxKeysExceedsBudget n k) =
     ''flow-rule '' @ quoted n @ '': max_keys '' @ show_nat (unat k) @ '' exceeds per-rule budget '' @
     show_nat (unat MAX_KEYS_BUDGET)"
| "validation_error_msg dbg (KeyWidthExceeded n w) =
     ''flow-rule '' @ quoted n @ '': key width '' @ show_nat (unat w) @ '' exceeds maximum '' @
     show_nat (unat MAX_KEY_WIDTH)"
| "validation_error_msg dbg (BudgetExceeded t) =
     ''total max_keys '' @ show_nat (unat t) @ '' exceeds budget '' @ show_nat (unat MAX_KEYS_BUDGET)"
| "validation_error_msg dbg (TooManyRules n m) =
     ''too many flow rules: '' @ show_nat n @ '' exceeds maximum '' @ show_nat m"
| "validation_error_msg dbg (InvalidName n) = ''flow-rule name '' @ quoted n @ '' is invalid: '' @ name_shape"
| "validation_error_msg dbg ZeroPollingInterval = ''frontend: polling_interval_ms must be > 0''"
| "validation_error_msg dbg ZeroShutdownGrace = ''frontend: shutdown_grace_ms must be > 0''"
| "validation_error_msg dbg (InvalidStartupTimeout v) =
     ''frontend: invalid startup_timeout format: '' @ dbg v"
| "validation_error_msg dbg (EmptyExporterType n) = ''exporter '' @ quoted n @ '': type is empty''"
| "validation_error_msg dbg (UnknownExporterType n k known) =
     ''exporter '' @ quoted n @ '': unknown type '' @ quoted k @ '' (known: '' @ known @ '')''"
| "validation_error_msg dbg (EmptyExporterName i) = ''exporter at index '' @ show_nat i @ '': name is empty''"
| "validation_error_msg dbg (DuplicateExporterName n) = ''duplicate exporter name: '' @ n"
| "validation_error_msg dbg (ZeroQueueDepth n) = ''exporter '' @ quoted n @ '': queue_depth must be >= 1''"
| "validation_error_msg dbg (QueueDepthTooLarge n d m) =
     ''exporter '' @ quoted n @ '': queue_depth '' @ show_nat d @ '' exceeds maximum '' @ show_nat m"
| "validation_error_msg dbg (InvalidExportTimeout n v) =
     ''exporter '' @ quoted n @ '': invalid export_timeout format: '' @ dbg v"
| "validation_error_msg dbg (InvalidOverflowPolicy n p valid) =
     ''exporter '' @ quoted n @ '': unknown on_overflow policy '' @ quoted p @ '' (valid: '' @ valid @ '')''"
| "validation_error_msg dbg ZeroStartupTimeout = ''frontend: startup_timeout must be > 0''"
| "validation_error_msg dbg (ZeroExportTimeout n) = ''exporter '' @ quoted n @ '': export_timeout must be > 0''"
| "validation_error_msg dbg (InvalidExporterName n) =
     ''exporter '' @ quoted n @ '': name is invalid: '' @ name_shape"
| "validation_error_msg dbg (MissingOtlpEndpoint n) =
     ''exporter '' @ quoted n @ '': OTLP exporter must have a non-empty '' @ quoted ''endpoint''"
| "validation_error_msg dbg MissingLogFileConfig =
     ''logging: destination is '' @ quoted ''file'' @ '' but no file config provided''"
| "validation_error_msg dbg EmptyLogFilePath = ''logging: file path must not be empty''"
| "validation_error_msg dbg SyslogWithFileConfig =
     ''logging: destination is '' @ quoted ''syslog'' @ '' but file config was provided (ambiguous)''"

section \<open>Names\<close>

definition is_valid_name :: "string \<Rightarrow> bool" where
  "is_valid_name name =
     (let len = length name
      in if \<not> (NAME_MIN_LEN \<le> len \<and> len \<le> NAME_MAX_LEN) then False
         else if \<not> is_ascii_lowercase (hd name) \<and> \<not> is_ascii_digit (hd name) then False
         else list_all (\<lambda>b. is_ascii_lowercase b \<or> is_ascii_digit b \<or> b = CHR ''_'' \<or> b = CHR ''-'')
                (tl name))"

text \<open>The documented shape \<open>^[a-z0-9][a-z0-9_-]{1,30}$\<close>, piece by piece.\<close>

definition lead_chars :: "char set" where
  "lead_chars = set ''abcdefghijklmnopqrstuvwxyz0123456789''"

definition rest_chars :: "char set" where
  "rest_chars = lead_chars \<union> set ''_-''"

definition name_ok :: "string \<Rightarrow> bool" where
  "name_ok name \<longleftrightarrow>
     (\<exists>c cs. name = c # cs \<and> c \<in> lead_chars \<and> set cs \<subseteq> rest_chars \<and>
        1 \<le> length cs \<and> length cs \<le> 30)"

lemma char_of_interval:
  "lo \<le> byte c \<and> byte c \<le> hi \<longleftrightarrow> c \<in> char_of ` {lo..hi}" if "hi < 256" for lo hi :: nat
  using that by (auto simp: image_iff intro: bexI [where x = "byte c"])

lemma lead_chars_iff: "c \<in> lead_chars \<longleftrightarrow> is_ascii_lowercase c \<or> is_ascii_digit c"
proof -
  have "char_of ` {97..122::nat} \<union> char_of ` {48..57::nat} = lead_chars"
    by (simp add: lead_chars_def atLeastAtMost_upt upt_rec char_of_def) (code_simp)
  then show ?thesis
    by (auto simp: is_ascii_lowercase_def is_ascii_digit_def char_of_interval)
qed

lemma is_valid_name_iff: "is_valid_name name \<longleftrightarrow> name_ok name"
proof (cases name)
  case (Cons c cs)
  have rest: "b \<in> rest_chars \<longleftrightarrow>
      is_ascii_lowercase b \<or> is_ascii_digit b \<or> b = CHR ''_'' \<or> b = CHR ''-''" for b
    by (auto simp: rest_chars_def lead_chars_iff)
  show ?thesis
    by (auto simp: Cons is_valid_name_def name_ok_def validate_consts Let_def lead_chars_iff
        rest list_all_iff subset_iff)
qed (simp add: is_valid_name_def name_ok_def validate_consts)

lemma name_ok_length: "name_ok name \<Longrightarrow> 2 \<le> length name \<and> length name \<le> 31"
  by (auto simp: name_ok_def)

lemma name_ok_nonempty: "name_ok name \<Longrightarrow> name \<noteq> []"
  by (auto simp: name_ok_def)

section \<open>Durations in milliseconds\<close>

text \<open>
  A suffix \<open>ms\<close>, \<open>h\<close>, \<open>m\<close> or \<open>s\<close>, tried in this order; the product is taken in
  \<open>u64\<close> and wraps.
\<close>

definition u64_of_text :: "string \<Rightarrow> u64 option" where
  "u64_of_text s = map_option word_of_nat (res_ok (parse_u64 s))"

definition parse_duration_str :: "string \<Rightarrow> u64 option" where
  "parse_duration_str s0 =
     (let s = trim s0
      in case strip_suffix ''ms'' s of
           Some ms \<Rightarrow> u64_of_text (trim ms)
         | None \<Rightarrow>
        (case strip_suffix ''h'' s of
           Some h \<Rightarrow> map_option (\<lambda>v. v * 3600000) (u64_of_text (trim h))
         | None \<Rightarrow>
        (case strip_suffix ''m'' s of
           Some m \<Rightarrow> map_option (\<lambda>v. v * 60000) (u64_of_text (trim m))
         | None \<Rightarrow>
        (case strip_suffix ''s'' s of
           Some secs \<Rightarrow> map_option (\<lambda>v. v * 1000) (u64_of_text (trim secs))
         | None \<Rightarrow> if list_all is_ascii_digit s \<and> s \<noteq> [] then u64_of_text s else None))))"

section \<open>One flow rule\<close>

definition validate_rule :: "flow_rule \<Rightarrow> validation_error + unit" where
  "validate_rule rule =
     (if \<not> is_valid_name (fr_name rule) then Err (InvalidName (fr_name rule))
      else if fr_fields rule = [] then Err (EmptyFields (fr_name rule))
      else case first_dup {} (fr_fields rule) of
        Some f \<Rightarrow> Err (DuplicateField (fr_name rule) f)
      | None \<Rightarrow>
          if fr_max_keys rule = 0 then Err (ZeroMaxKeys (fr_name rule))
          else if MAX_KEYS_BUDGET < fr_max_keys rule
            then Err (MaxKeysExceedsBudget (fr_name rule) (fr_max_keys rule))
          else let width = key_width (fr_fields rule)
               in if MAX_KEY_WIDTH < width then Err (KeyWidthExceeded (fr_name rule) width)
                  else Ok ())"

section \<open>The frontend block\<close>

definition validate_frontend :: "frontend_config \<Rightarrow> validation_error + unit" where
  "validate_frontend cfg =
     (if fc_polling_interval_ms cfg = 0 then Err ZeroPollingInterval
      else if fc_shutdown_grace_ms cfg = 0 then Err ZeroShutdownGrace
      else case parse_duration_str (fc_startup_timeout cfg) of
        None \<Rightarrow> Err (InvalidStartupTimeout (fc_startup_timeout cfg))
      | Some v \<Rightarrow> if v = 0 then Err ZeroStartupTimeout else Ok ())"

section \<open>One exporter entry\<close>

definition has_endpoint :: "exporter_entry \<Rightarrow> bool" where
  "has_endpoint entry =
     (case Option.bind (map_of (ee_extra entry) ''endpoint'') yaml_as_str of
        None \<Rightarrow> False
      | Some s \<Rightarrow> s \<noteq> [])"

definition validate_exporter :: "exporter_entry \<Rightarrow> nat \<Rightarrow> validation_error + unit" where
  "validate_exporter entry index =
     (if ee_name entry = [] then Err (EmptyExporterName index)
      else if \<not> is_valid_name (ee_name entry) then Err (InvalidExporterName (ee_name entry))
      else if ee_kind entry = [] then Err (EmptyExporterType (ee_name entry))
      else if ee_kind entry \<notin> set KNOWN_EXPORTER_TYPES
        then Err (UnknownExporterType (ee_name entry) (ee_kind entry) (join '', '' KNOWN_EXPORTER_TYPES))
      else if ee_queue_depth entry = 0 then Err (ZeroQueueDepth (ee_name entry))
      else if MAX_QUEUE_DEPTH < ee_queue_depth entry
        then Err (QueueDepthTooLarge (ee_name entry) (ee_queue_depth entry) MAX_QUEUE_DEPTH)
      else case parse_duration_str (ee_export_timeout entry) of
        None \<Rightarrow> Err (InvalidExportTimeout (ee_name entry) (ee_export_timeout entry))
      | Some v \<Rightarrow>
          if v = 0 then Err (ZeroExportTimeout (ee_name entry))
          else if ee_kind entry = ''otlp'' \<and> \<not> has_endpoint entry
            then Err (MissingOtlpEndpoint (ee_name entry))
          else if ee_on_overflow entry \<notin> set VALID_OVERFLOW_POLICIES
            then Err (InvalidOverflowPolicy (ee_name entry) (ee_on_overflow entry)
                        (join '', '' VALID_OVERFLOW_POLICIES))
          else Ok ())"

section \<open>The logging block\<close>

definition validate_logging :: "logging_config \<Rightarrow> validation_error + unit" where
  "validate_logging cfg =
     and_then
       (if lc_destination cfg = LogFile
        then (case lc_file cfg of
                None \<Rightarrow> Err MissingLogFileConfig
              | Some fc \<Rightarrow> if lf_path fc = [] then Err EmptyLogFilePath else Ok ())
        else Ok ())
       (\<lambda>_. if lc_destination cfg = Syslog \<and> lc_file cfg \<noteq> None
            then Err SyslogWithFileConfig else Ok ())"

section \<open>A whole configuration\<close>

fun validate_rules :: "string set \<Rightarrow> flow_rule list \<Rightarrow> validation_error + unit" where
  "validate_rules names [] = Ok ()"
| "validate_rules names (rule # rules) =
     (if fr_name rule \<in> names then Err (DuplicateName (fr_name rule))
      else and_then (validate_rule rule)
             (\<lambda>_. validate_rules (insert (fr_name rule) names) rules))"

fun validate_exporters :: "string set \<Rightarrow> nat \<Rightarrow> exporter_entry list \<Rightarrow> validation_error + unit" where
  "validate_exporters names i [] = Ok ()"
| "validate_exporters names i (entry # entries) =
     and_then (validate_exporter entry i)
       (\<lambda>_. if ee_name entry \<in> names then Err (DuplicateExporterName (ee_name entry))
            else validate_exporters (insert (ee_name entry) names) (Suc i) entries)"

definition total_max_keys :: "flow_rule list \<Rightarrow> u64" where
  "total_max_keys rules = sum_list (map (\<lambda>r. ucast (fr_max_keys r)) rules)"

definition validate_config :: "config \<Rightarrow> validation_error + unit" where
  "validate_config config =
     and_then (case cfg_frontend config of None \<Rightarrow> Ok () | Some f \<Rightarrow> validate_frontend f)
    (\<lambda>_. and_then (case cfg_logging config of None \<Rightarrow> Ok () | Some l \<Rightarrow> validate_logging l)
    (\<lambda>_. and_then (validate_rules {} (cfg_flow_rules config))
    (\<lambda>_. if FLOW_RULE_SET_MAX < length (cfg_flow_rules config)
           then Err (TooManyRules (length (cfg_flow_rules config)) FLOW_RULE_SET_MAX)
         else let total = total_max_keys (cfg_flow_rules config)
              in if ucast MAX_KEYS_BUDGET < total then Err (BudgetExceeded total)
                 else case cfg_exporters config of
                        None \<Rightarrow> Ok ()
                      | Some es \<Rightarrow> validate_exporters {} 0 es)))"

section \<open>What a valid configuration is\<close>

definition rule_ok :: "flow_rule \<Rightarrow> bool" where
  "rule_ok r \<longleftrightarrow> name_ok (fr_name r) \<and> fr_fields r \<noteq> [] \<and> distinct (fr_fields r) \<and>
     1 \<le> unat (fr_max_keys r) \<and> unat (fr_max_keys r) \<le> 16777216"

definition positive_duration :: "string \<Rightarrow> bool" where
  "positive_duration s \<longleftrightarrow> (\<exists>v. parse_duration_str s = Some v \<and> v \<noteq> 0)"

definition frontend_ok :: "frontend_config \<Rightarrow> bool" where
  "frontend_ok f \<longleftrightarrow> fc_polling_interval_ms f \<noteq> 0 \<and> fc_shutdown_grace_ms f \<noteq> 0 \<and>
     positive_duration (fc_startup_timeout f)"

definition exporter_ok :: "exporter_entry \<Rightarrow> bool" where
  "exporter_ok e \<longleftrightarrow> name_ok (ee_name e) \<and> ee_kind e = ''otlp'' \<and>
     1 \<le> ee_queue_depth e \<and> ee_queue_depth e \<le> 10000 \<and>
     positive_duration (ee_export_timeout e) \<and> has_endpoint e \<and>
     ee_on_overflow e = ''drop_newest''"

definition logging_ok :: "logging_config \<Rightarrow> bool" where
  "logging_ok l \<longleftrightarrow>
     (case lc_destination l of
        LogFile \<Rightarrow> (\<exists>fc. lc_file l = Some fc \<and> lf_path fc \<noteq> [])
      | Syslog \<Rightarrow> lc_file l = None)"

definition rules_ok :: "flow_rule list \<Rightarrow> bool" where
  "rules_ok rs \<longleftrightarrow> list_all rule_ok rs \<and> distinct (map fr_name rs) \<and> length rs \<le> 16 \<and>
     sum_list (map (unat \<circ> fr_max_keys) rs) \<le> 16777216"

definition config_ok :: "config \<Rightarrow> bool" where
  "config_ok c \<longleftrightarrow>
     pred_option frontend_ok (cfg_frontend c) \<and>
     pred_option logging_ok (cfg_logging c) \<and>
     rules_ok (cfg_flow_rules c) \<and>
     pred_option (\<lambda>es. list_all exporter_ok es \<and> distinct (map ee_name es)) (cfg_exporters c)"

section \<open>Validation accepts exactly the valid configurations\<close>

lemma validate_rule_iff_rule_ok: "validate_rule r = Ok () \<longleftrightarrow> rule_ok r"
proof (cases "first_dup {} (fr_fields r)")
  case None
  then have d: "distinct (fr_fields r)" by (simp add: first_dup_empty_None)
  then have "\<not> MAX_KEY_WIDTH < key_width (fr_fields r)"
    using distinct_key_width by (fastforce simp: word_less_nat_alt MAX_KEY_WIDTH_def)
  then show ?thesis
    using None d
    by (auto simp: validate_rule_def rule_ok_def is_valid_name_iff validate_consts
        word_less_nat_alt unat_gt_0 Suc_le_eq Let_def)
next
  case (Some f)
  then have "\<not> distinct (fr_fields r)" by (metis first_dup_empty_None option.distinct(1))
  then show ?thesis using Some by (auto simp: validate_rule_def rule_ok_def)
qed

lemma validate_frontend_iff: "validate_frontend f = Ok () \<longleftrightarrow> frontend_ok f"
  by (auto simp: validate_frontend_def frontend_ok_def positive_duration_def split: option.splits)

lemma validate_exporter_iff: "validate_exporter e i = Ok () \<longleftrightarrow> exporter_ok e"
  by (auto simp: validate_exporter_def exporter_ok_def positive_duration_def validate_consts
      is_valid_name_iff dest: name_ok_nonempty split: option.splits)

lemma validate_logging_iff: "validate_logging l = Ok () \<longleftrightarrow> logging_ok l"
  by (auto simp: validate_logging_def logging_ok_def split: option.splits log_type.splits)

lemma validate_rules_iff:
  "validate_rules names rs = Ok () \<longleftrightarrow>
   list_all rule_ok rs \<and> distinct (map fr_name rs) \<and> fr_name ` set rs \<inter> names = {}"
  by (induction rs arbitrary: names)
    (auto simp: and_then_eq_Ok validate_rule_iff_rule_ok)

lemma validate_exporters_iff:
  "validate_exporters names i es = Ok () \<longleftrightarrow>
   list_all exporter_ok es \<and> distinct (map ee_name es) \<and> ee_name ` set es \<inter> names = {}"
  by (induction es arbitrary: names i)
    (auto simp: and_then_eq_Ok validate_exporter_iff)

lemma unat_total_max_keys:
  "length rs \<le> 2 ^ 32 - 1 \<Longrightarrow>
   unat (total_max_keys rs) = sum_list (map (unat \<circ> fr_max_keys) rs)"
proof (induction rs)
  case (Cons r rs)
  have each: "unat (fr_max_keys q) \<le> 2 ^ 32 - 1" for q :: flow_rule
    using unat_less_exp [of "fr_max_keys q"] by simp
  then have "sum_list (map (unat \<circ> fr_max_keys) (r # rs)) \<le> length (r # rs) * (2 ^ 32 - 1)"
    by (intro sum_list_bound) simp
  also have "\<dots> < 2 ^ 64" using Cons.prems by simp
  finally show ?case
    using Cons by (simp add: total_max_keys_def unat_word_ariths unsigned_ucast_eq take_bit_eq_mod o_def)
qed (simp add: total_max_keys_def)

lemma budget_test:
  "length rs \<le> 16 \<Longrightarrow>
   ucast MAX_KEYS_BUDGET < total_max_keys rs \<longleftrightarrow>
   \<not> sum_list (map (unat \<circ> fr_max_keys) rs) \<le> 16777216"
  by (simp add: word_less_nat_alt unat_total_max_keys MAX_KEYS_BUDGET_def not_le)

lemma validate_config_iff_config_ok: "validate_config c = Ok () \<longleftrightarrow> config_ok c"
proof (cases "length (cfg_flow_rules c) \<le> 16")
  case True
  then show ?thesis
    by (auto simp: validate_config_def config_ok_def rules_ok_def and_then_eq_Ok
        validate_frontend_iff validate_logging_iff validate_rules_iff validate_exporters_iff
        budget_test FLOW_RULE_SET_MAX_def Let_def split: option.splits)
next
  case False
  then show ?thesis
    by (auto simp: validate_config_def config_ok_def rules_ok_def and_then_eq_Ok
        FLOW_RULE_SET_MAX_def)
qed

text \<open>What each rule error says of the rule it is returned for.\<close>

fun rule_error_holds :: "flow_rule \<Rightarrow> validation_error \<Rightarrow> bool" where
  "rule_error_holds r (InvalidName n) \<longleftrightarrow> n = fr_name r \<and> \<not> name_ok n"
| "rule_error_holds r (EmptyFields n) \<longleftrightarrow> n = fr_name r \<and> fr_fields r = []"
| "rule_error_holds r (DuplicateField n f) \<longleftrightarrow> n = fr_name r \<and> 2 \<le> count_list (fr_fields r) f"
| "rule_error_holds r (ZeroMaxKeys n) \<longleftrightarrow> n = fr_name r \<and> fr_max_keys r = 0"
| "rule_error_holds r (MaxKeysExceedsBudget n k) \<longleftrightarrow>
     n = fr_name r \<and> k = fr_max_keys r \<and> 16777216 < unat k"
| "rule_error_holds r _ \<longleftrightarrow> False"

lemma validate_rule_Err_holds: "validate_rule r = Err e \<Longrightarrow> rule_error_holds r e"
proof (cases "first_dup {} (fr_fields r)")
  case None
  then have "distinct (fr_fields r)" by (simp add: first_dup_empty_None)
  then have "\<not> MAX_KEY_WIDTH < key_width (fr_fields r)"
    using distinct_key_width by (fastforce simp: word_less_nat_alt MAX_KEY_WIDTH_def)
  moreover assume "validate_rule r = Err e"
  ultimately show ?thesis
    using None
    by (auto simp: validate_rule_def is_valid_name_iff Let_def MAX_KEYS_BUDGET_def
        word_less_nat_alt split: if_splits)
next
  case (Some f)
  assume "validate_rule r = Err e"
  with Some first_dup_Some_count [OF Some] show ?thesis
    by (auto simp: validate_rule_def is_valid_name_iff split: if_splits)
qed

section \<open>Properties\<close>

text \<open>
  C1. Validation of a whole configuration accepts exactly the configurations that satisfy
  \<open>config_ok\<close>: every block that is present is well formed, names are unique, at most 16
  rules, and the key budgets of the rules sum, as natural numbers, to at most 2^24. Neither
  the order of the checks nor the 64-bit sum changes the verdict.
\<close>

theorem validate_config_exact: "validate_config c = Ok () \<longleftrightarrow> config_ok c"
  by (rule validate_config_iff_config_ok)

text \<open>
  C33. The verdict on one rule is right both ways: acceptance means the rule is well formed,
  and an error names the rule and a defect the rule has. No rule is ever refused for the
  width of its key, since pairwise different fields are at most 54 bytes wide.
\<close>

theorem validate_rule_verdict:
  "case validate_rule r of Ok _ \<Rightarrow> rule_ok r | Err e \<Rightarrow> rule_error_holds r e"
proof (cases "validate_rule r")
  case (Inl e)
  then show ?thesis by (simp add: validate_rule_Err_holds)
next
  case (Inr u)
  then show ?thesis using validate_rule_iff_rule_ok [of r] by simp
qed

end
