(* ===== verification/RuleStore.thy ===== *)
theory RuleStore
  imports ConfigModel
begin

text \<open>
  The interface two components offer for flow rules: the \<open>FlowRuleSet\<close> of the
  configuration library and the in-memory table of the control server. A store is used
  through \<open>add\<close>, \<open>remove\<close> and \<open>lookup\<close> by rule name; the first two say whether they
  accepted. The laws are those of a finite map from names to rules whose insertions never
  overwrite and whose refusals change nothing visible. The client lemmas relate whole
  histories of a store to the abstract map.
\<close>

datatype store_op = OpAdd flow_rule | OpRemove string

fun abs_apply :: "store_op \<Rightarrow> (string \<rightharpoonup> flow_rule) \<Rightarrow> (string \<rightharpoonup> flow_rule)" where
  "abs_apply (OpAdd r) m = m(fr_name r \<mapsto> r)"
| "abs_apply (OpRemove n) m = m(n := None)"

locale rule_store =
  fixes add :: "flow_rule \<Rightarrow> 's \<Rightarrow> bool \<times> 's"
    and remove :: "string \<Rightarrow> 's \<Rightarrow> bool \<times> 's"
    and lookup :: "'s \<Rightarrow> string \<Rightarrow> flow_rule option"
    and inv :: "'s \<Rightarrow> bool"
  assumes add_inv: "inv s \<Longrightarrow> inv (snd (add r s))"
    and remove_inv: "inv s \<Longrightarrow> inv (snd (remove n s))"
    and add_fresh: "inv s \<Longrightarrow> fst (add r s) \<Longrightarrow> lookup s (fr_name r) = None"
    and remove_present: "inv s \<Longrightarrow> fst (remove n s) \<Longrightarrow> lookup s n \<noteq> None"
    and lookup_add: "inv s \<Longrightarrow>
      lookup (snd (add r s)) = (if fst (add r s) then (lookup s)(fr_name r \<mapsto> r) else lookup s)"
    and lookup_remove: "inv s \<Longrightarrow>
      lookup (snd (remove n s)) = (if fst (remove n s) then (lookup s)(n := None) else lookup s)"
begin

definition apply_op :: "store_op \<Rightarrow> 's \<Rightarrow> bool \<times> 's" where
  "apply_op oper s = (case oper of OpAdd r \<Rightarrow> add r s | OpRemove n \<Rightarrow> remove n s)"

fun run :: "store_op list \<Rightarrow> 's \<Rightarrow> 's" where
  "run [] s = s"
| "run (oper # ops) s = run ops (snd (apply_op oper s))"

fun accepted :: "store_op list \<Rightarrow> 's \<Rightarrow> store_op list" where
  "accepted [] s = []"
| "accepted (oper # ops) s =
     (if fst (apply_op oper s) then [oper] else []) @ accepted ops (snd (apply_op oper s))"

lemma apply_op_inv: "inv s \<Longrightarrow> inv (snd (apply_op oper s))"
  by (cases oper) (auto simp: apply_op_def intro: add_inv remove_inv)

lemma apply_op_abs:
  "inv s \<Longrightarrow> lookup (snd (apply_op oper s)) =
    (if fst (apply_op oper s) then abs_apply oper (lookup s) else lookup s)"
  by (cases oper) (auto simp: apply_op_def lookup_add lookup_remove)

lemma run_inv: "inv s \<Longrightarrow> inv (run ops s)"
  by (induction ops arbitrary: s) (auto intro: apply_op_inv)

text \<open>The store refines the map: any history, read through \<open>lookup\<close>, is the map's own.\<close>

lemma run_refines:
  "inv s \<Longrightarrow> lookup (run ops s) = fold abs_apply (accepted ops s) (lookup s)"
  by (induction ops arbitrary: s) (auto simp: apply_op_abs apply_op_inv)

text \<open>Removing what was just added restores the map, and a name in use is never taken twice.\<close>

lemma remove_add:
  assumes "inv s" "fst (add r s)" "fst (remove (fr_name r) (snd (add r s)))"
  shows "lookup (snd (remove (fr_name r) (snd (add r s)))) = lookup s"
  using assms lookup_remove [OF add_inv [OF assms(1)]] lookup_add [OF assms(1)] add_fresh [OF assms(1,2)]
  by auto

lemma add_twice:
  assumes "inv s" "fst (add r s)" "fr_name q = fr_name r"
  shows "\<not> fst (add q (snd (add r s)))"
proof
  assume "fst (add q (snd (add r s)))"
  then have "lookup (snd (add r s)) (fr_name q) = None" using add_fresh add_inv assms(1) by blast
  then show False using lookup_add [OF assms(1), of r] assms(2,3) by simp
qed

end

section \<open>Rules kept in a list with pairwise different names\<close>

definition rule_named :: "flow_rule list \<Rightarrow> string \<Rightarrow> flow_rule option" where
  "rule_named rs n = find (\<lambda>r. fr_name r = n) rs"

lemma rule_named_None: "rule_named rs n = None \<longleftrightarrow> n \<notin> fr_name ` set rs"
  by (auto simp: rule_named_def find_None_iff_all)

lemma rule_named_SomeD: "rule_named rs n = Some r \<Longrightarrow> r \<in> set rs \<and> fr_name r = n"
  by (auto simp: rule_named_def dest: find_Some_iff_hd)

lemma rule_named_push:
  "fr_name r \<notin> fr_name ` set rs \<Longrightarrow> rule_named (rs @ [r]) = (rule_named rs)(fr_name r \<mapsto> r)"
  by (induction rs) (auto simp: rule_named_def fun_eq_iff)

lemma rule_named_filter:
  "rule_named (filter (\<lambda>r. fr_name r \<noteq> n) rs) = (rule_named rs)(n := None)"
proof
  fix m
  show "rule_named (filter (\<lambda>r. fr_name r \<noteq> n) rs) m = ((rule_named rs)(n := None)) m"
    by (induction rs) (auto simp: rule_named_def)
qed

lemma list_ex_name: "list_ex (\<lambda>q. fr_name q = n) rs \<longleftrightarrow> n \<in> fr_name ` set rs"
  by (auto simp: list_ex_iff)

lemmas rule_named_simps = rule_named_None rule_named_push rule_named_filter list_ex_name

end
