(* ===== verification/Crud.thy ===== *)
theory Crud
  imports Validate RuleStore
begin

text \<open>
  \<open>src/common/src/config/crud.rs\<close>: the \<open>FlowRuleSet\<close>, an ordered list of rules under a
  key budget, with \<open>add\<close>, \<open>rm\<close>, \<open>list\<close>, \<open>show\<close> and all-or-nothing loading from a
  configuration. The invariant \<open>set_inv\<close> is what every operation keeps; the set is an
  instance of the \<open>rule_store\<close> interface.
\<close>

datatype crud_error =
    NameExists string
  | NotFound string
  | InvalidSpec validation_error
  | CrudBudgetExceeded u64 u32 u32
  | SetFull nat

record flow_rule_set =
  fs_rules :: "flow_rule list"
  fs_max_keys_budget :: u32

definition set_new :: "u32 \<Rightarrow> flow_rule_set" where
  "set_new budget = \<lparr> fs_rules = [], fs_max_keys_budget = budget \<rparr>"

definition from_config :: "config \<Rightarrow> crud_error + flow_rule_set" where
  "from_config c =
     and_then (map_err InvalidSpec (validate_config c))
       (\<lambda>_. Ok \<lparr> fs_rules = cfg_flow_rules c, fs_max_keys_budget = MAX_KEYS_BUDGET \<rparr>)"

text \<open>
  Loading from a file, \<open>src/common/src/config/parse.rs\<close>: reading and YAML parsing are the
  arguments \<open>read\<close> and \<open>yaml\<close>.
\<close>

datatype parse_error = Yaml string | Io string

datatype load_error = ParseFailed parse_error | CrudFailed crud_error

definition parse_yaml :: "(string \<Rightarrow> string + config) \<Rightarrow> string \<Rightarrow> parse_error + config" where
  "parse_yaml yaml input = map_err Yaml (yaml input)"

definition parse_yaml_file ::
    "(string \<Rightarrow> string + string) \<Rightarrow> (string \<Rightarrow> string + config) \<Rightarrow> string \<Rightarrow> parse_error + config" where
  "parse_yaml_file read yaml path = and_then (map_err Io (read path)) (parse_yaml yaml)"

definition load_config ::
    "(string \<Rightarrow> string + string) \<Rightarrow> (string \<Rightarrow> string + config) \<Rightarrow> string \<Rightarrow> load_error + flow_rule_set" where
  "load_config read yaml path =
     and_then (map_err ParseFailed (parse_yaml_file read yaml path))
       (\<lambda>config. map_err CrudFailed (from_config config))"

definition used_keys :: "flow_rule_set \<Rightarrow> u64" where
  "used_keys s = total_max_keys (fs_rules s)"

definition set_add :: "flow_rule \<Rightarrow> flow_rule_set \<Rightarrow> crud_error + flow_rule_set" where
  "set_add rule s =
     and_then (map_err InvalidSpec (validate_rule rule))
       (\<lambda>_. if FLOW_RULE_SET_MAX \<le> length (fs_rules s) then Err (SetFull FLOW_RULE_SET_MAX)
            else if list_ex (\<lambda>r. fr_name r = fr_name rule) (fs_rules s)
              then Err (NameExists (fr_name rule))
            else let used = used_keys s
                 in if ucast (fs_max_keys_budget s) < used + ucast (fr_max_keys rule)
                    then Err (CrudBudgetExceeded used (fr_max_keys rule) (fs_max_keys_budget s))
                    else Ok (s\<lparr>fs_rules := fs_rules s @ [rule]\<rparr>))"

text \<open>\<open>Iterator::position\<close>, then \<open>Vec::remove\<close> at that index.\<close>

fun position :: "('a \<Rightarrow> bool) \<Rightarrow> 'a list \<Rightarrow> nat option" where
  "position P [] = None"
| "position P (x # xs) = (if P x then Some 0 else map_option Suc (position P xs))"

definition remove_at :: "nat \<Rightarrow> 'a list \<Rightarrow> 'a list" where
  "remove_at i xs = take i xs @ drop (Suc i) xs"

definition set_rm :: "string \<Rightarrow> flow_rule_set \<Rightarrow> crud_error + flow_rule \<times> flow_rule_set" where
  "set_rm name s =
     (case position (\<lambda>r. fr_name r = name) (fs_rules s) of
        None \<Rightarrow> Err (NotFound name)
      | Some pos \<Rightarrow> Ok (fs_rules s ! pos, s\<lparr>fs_rules := remove_at pos (fs_rules s)\<rparr>))"

definition set_list :: "flow_rule_set \<Rightarrow> flow_rule list" where
  "set_list s = fs_rules s"

definition set_show :: "string \<Rightarrow> flow_rule_set \<Rightarrow> crud_error + flow_rule" where
  "set_show name s =
     (case find (\<lambda>r. fr_name r = name) (fs_rules s) of
        None \<Rightarrow> Err (NotFound name)
      | Some r \<Rightarrow> Ok r)"

section \<open>Positions\<close>

lemma position_None: "position P xs = None \<longleftrightarrow> (\<forall>x \<in> set xs. \<not> P x)"
  by (induction xs) auto

lemma position_Some: "position P xs = Some i \<Longrightarrow> i < length xs \<and> P (xs ! i) \<and> find P xs = Some (xs ! i)"
  by (induction xs arbitrary: i) (auto split: if_splits)

lemma remove_at_position:
  "distinct (map f xs) \<Longrightarrow> position (\<lambda>x. f x = k) xs = Some i \<Longrightarrow>
   remove_at i xs = filter (\<lambda>x. f x \<noteq> k) xs"
proof (induction xs arbitrary: i)
  case (Cons x xs)
  show ?case
  proof (cases "f x = k")
    case True
    then have "filter (\<lambda>y. f y \<noteq> k) xs = xs"
      using Cons.prems(1) by (metis (mono_tags, lifting) distinct.simps(2) filter_True image_eqI
          list.set_map list.simps(9))
    then show ?thesis using True Cons.prems by (simp add: remove_at_def)
  next
    case False
    then obtain j where "position (\<lambda>x. f x = k) xs = Some j" "i = Suc j"
      using Cons.prems by auto
    then show ?thesis using False Cons by (simp add: remove_at_def)
  qed
qed simp

section \<open>The invariant\<close>

definition set_inv :: "flow_rule_set \<Rightarrow> bool" where
  "set_inv s \<longleftrightarrow> list_all rule_ok (fs_rules s) \<and> distinct (map fr_name (fs_rules s)) \<and>
     length (fs_rules s) \<le> 16 \<and>
     sum_list (map (unat \<circ> fr_max_keys) (fs_rules s)) \<le> unat (fs_max_keys_budget s)"

lemma set_new_inv: "set_inv (set_new b)"
  by (simp add: set_inv_def set_new_def)

lemma from_config_iff:
  "from_config c = Ok s \<longleftrightarrow>
   config_ok c \<and> s = \<lparr> fs_rules = cfg_flow_rules c, fs_max_keys_budget = 16777216 \<rparr>"
  by (auto simp: from_config_def res_simps validate_config_iff_config_ok MAX_KEYS_BUDGET_def)

lemma from_config_inv: "from_config c = Ok s \<Longrightarrow> set_inv s"
  by (auto simp: from_config_iff config_ok_def rules_ok_def set_inv_def)

lemma load_config_iff:
  "load_config read yaml path = Ok s \<longleftrightarrow>
   (\<exists>text c. read path = Ok text \<and> yaml text = Ok c \<and> config_ok c \<and>
      s = \<lparr> fs_rules = cfg_flow_rules c, fs_max_keys_budget = 16777216 \<rparr>)"
  by (auto simp: load_config_def parse_yaml_file_def parse_yaml_def res_simps from_config_iff)

lemma unat_used_keys:
  "length (fs_rules s) \<le> 16 \<Longrightarrow>
   unat (used_keys s) = sum_list (map (unat \<circ> fr_max_keys) (fs_rules s))"
  by (simp add: used_keys_def unat_total_max_keys)

text \<open>The addition in the budget test cannot wrap while the invariant holds.\<close>

lemma budget_sum:
  assumes "set_inv s"
  shows "unat (used_keys s + ucast (fr_max_keys r)) =
    sum_list (map (unat \<circ> fr_max_keys) (fs_rules s)) + unat (fr_max_keys r)"
proof -
  have "unat (used_keys s) < 2 ^ 32" "unat (fr_max_keys r) < 2 ^ 32"
    using assms unat_less_exp [of "fs_max_keys_budget s"] unat_less_exp [of "fr_max_keys r"]
    by (auto simp: set_inv_def unat_used_keys)
  then show ?thesis
    using assms by (simp add: set_inv_def unat_used_keys [symmetric] unat_word_ariths)
qed

lemma set_add_iff:
  assumes "set_inv s"
  shows "set_add r s = Ok s' \<longleftrightarrow>
    rule_ok r \<and> length (fs_rules s) < 16 \<and> fr_name r \<notin> fr_name ` set (fs_rules s) \<and>
    sum_list (map (unat \<circ> fr_max_keys) (fs_rules s)) + unat (fr_max_keys r)
      \<le> unat (fs_max_keys_budget s) \<and>
    s' = s\<lparr>fs_rules := fs_rules s @ [r]\<rparr>"
  using assms
  by (auto simp: set_add_def res_simps validate_rule_iff_rule_ok FLOW_RULE_SET_MAX_def Let_def
      list_ex_name word_less_nat_alt budget_sum not_less)

lemma set_add_inv: "set_inv s \<Longrightarrow> set_add r s = Ok s' \<Longrightarrow> set_inv s'"
  by (subst (asm) set_add_iff) (auto simp: set_inv_def)

lemma set_rm_Ok:
  assumes "set_inv s"
  shows "set_rm n s = Ok (r, s') \<longleftrightarrow>
    rule_named (fs_rules s) n = Some r \<and>
    s' = s\<lparr>fs_rules := filter (\<lambda>q. fr_name q \<noteq> n) (fs_rules s)\<rparr>"
proof -
  have d: "distinct (map fr_name (fs_rules s))" using assms by (simp add: set_inv_def)
  show ?thesis
  proof (cases "position (\<lambda>r. fr_name r = n) (fs_rules s)")
    case None
    then have "set_rm n s = Err (NotFound n)" by (simp add: set_rm_def)
    moreover have "rule_named (fs_rules s) n = None"
      using None by (simp add: position_None rule_named_def find_None_iff_all)
    ultimately show ?thesis by simp
  next
    case (Some i)
    then show ?thesis
      using remove_at_position [OF d Some] position_Some [OF Some]
      by (auto simp: set_rm_def rule_named_def)
  qed
qed

lemma set_rm_Err: "set_rm n s = Err e \<longleftrightarrow> rule_named (fs_rules s) n = None \<and> e = NotFound n"
proof (cases "position (\<lambda>r. fr_name r = n) (fs_rules s)")
  case None
  then have "rule_named (fs_rules s) n = None"
    by (simp add: position_None rule_named_def find_None_iff_all)
  with None show ?thesis by (auto simp: set_rm_def)
next
  case (Some i)
  then show ?thesis using position_Some [OF Some] by (simp add: set_rm_def rule_named_def)
qed

lemma set_rm_inv: "set_inv s \<Longrightarrow> set_rm n s = Ok (r, s') \<Longrightarrow> set_inv s'"
proof -
  assume inv: "set_inv s" and rm: "set_rm n s = Ok (r, s')"
  then have s': "s' = s\<lparr>fs_rules := filter (\<lambda>q. fr_name q \<noteq> n) (fs_rules s)\<rparr>"
    by (simp add: set_rm_Ok)
  have "sum_list (map (unat \<circ> fr_max_keys) (filter (\<lambda>q. fr_name q \<noteq> n) (fs_rules s)))
      \<le> sum_list (map (unat \<circ> fr_max_keys) (fs_rules s))"
    by (rule sum_list_filter_le)
  with inv show ?thesis
    by (auto simp: s' set_inv_def list_all_iff distinct_map_filter
        intro: le_trans [OF length_filter_le] order_trans)
qed

section \<open>The set as a rule store\<close>

definition store_add :: "flow_rule \<Rightarrow> flow_rule_set \<Rightarrow> bool \<times> flow_rule_set" where
  "store_add r s = (case set_add r s of Ok s' \<Rightarrow> (True, s') | Err _ \<Rightarrow> (False, s))"

definition store_remove :: "string \<Rightarrow> flow_rule_set \<Rightarrow> bool \<times> flow_rule_set" where
  "store_remove n s = (case set_rm n s of Ok (_, s') \<Rightarrow> (True, s') | Err _ \<Rightarrow> (False, s))"

definition store_lookup :: "flow_rule_set \<Rightarrow> string \<Rightarrow> flow_rule option" where
  "store_lookup s n = res_ok (set_show n s)"

lemma store_lookup_eq: "store_lookup s = rule_named (fs_rules s)"
  by (rule ext) (simp add: store_lookup_def set_show_def rule_named_def split: option.splits)

lemma store_add_cases:
  obtains (refused) "store_add r s = (False, s)"
  | (added) s' where "set_add r s = Ok s'" "store_add r s = (True, s')"
  by (cases "set_add r s") (auto simp: store_add_def)

lemma store_remove_cases:
  obtains (refused) "store_remove n s = (False, s)"
  | (removed) r s' where "set_rm n s = Ok (r, s')" "store_remove n s = (True, s')"
  by (cases "set_rm n s") (auto simp: store_remove_def)

interpretation rule_set: rule_store store_add store_remove store_lookup set_inv
proof (unfold_locales, goal_cases)
  case (1 s r)
  then show ?case by (cases r s rule: store_add_cases) (auto intro: set_add_inv)
next
  case (2 s n)
  then show ?case by (cases n s rule: store_remove_cases) (auto intro: set_rm_inv)
next
  case (3 s r)
  then show ?case
    by (cases r s rule: store_add_cases) (auto simp: set_add_iff store_lookup_eq rule_named_None)
next
  case (4 s n)
  then show ?case
    by (cases n s rule: store_remove_cases) (auto simp: set_rm_Ok store_lookup_eq)
next
  case (5 s r)
  then show ?case
    by (cases r s rule: store_add_cases) (auto simp: set_add_iff store_lookup_eq rule_named_push)
next
  case (6 s n)
  then show ?case
    by (cases n s rule: store_remove_cases) (auto simp: set_rm_Ok store_lookup_eq rule_named_filter)
qed

section \<open>Properties\<close>

text \<open>
  C2. Any history of additions and removals on a fresh set keeps the invariant (well-formed
  rules, unique names, at most 16 of them, within the budget), and what \<open>show\<close> answers
  afterwards is the finite map that the accepted operations build.
\<close>

theorem set_history:
  "set_inv (rule_set.run ops (set_new b)) \<and>
   store_lookup (rule_set.run ops (set_new b)) =
     fold abs_apply (rule_set.accepted ops (set_new b)) Map.empty"
proof -
  have "store_lookup (set_new b) = Map.empty"
    by (rule ext) (simp add: store_lookup_eq rule_named_def set_new_def)
  then show ?thesis
    using rule_set.run_inv [OF set_new_inv] rule_set.run_refines [OF set_new_inv, of ops b] by simp
qed

text \<open>
  On a set that satisfies the invariant, adding a rule succeeds exactly when the rule is
  well formed, the set has room, the name is free and the budget is not exceeded, and then
  appends the rule and changes nothing else.
\<close>

theorem set_add_exact:
  assumes "set_inv s"
  shows "set_add r s = Ok s' \<longleftrightarrow>
    rule_ok r \<and> length (fs_rules s) < 16 \<and> rule_named (fs_rules s) (fr_name r) = None \<and>
    sum_list (map (unat \<circ> fr_max_keys) (fs_rules s)) + unat (fr_max_keys r)
      \<le> unat (fs_max_keys_budget s) \<and>
    s' = s\<lparr>fs_rules := fs_rules s @ [r]\<rparr>"
  using assms by (simp add: set_add_iff rule_named_None)

theorem set_add_exact_witness:
  "set_add \<lparr> fr_name = ''web'', fr_fields = [SrcIp, DstPort], fr_max_keys = 100,
             fr_eviction_policy = LruDrop \<rparr> (set_new 100) =
   Ok \<lparr> fs_rules = [\<lparr> fr_name = ''web'', fr_fields = [SrcIp, DstPort], fr_max_keys = 100,
             fr_eviction_policy = LruDrop \<rparr>], fs_max_keys_budget = 100 \<rparr>"
  by (subst set_add_exact [OF set_new_inv])
    (simp add: rule_ok_def name_ok_def lead_chars_def rest_chars_def rule_named_def set_new_def)

end
