(* ===== verification/IpcTypes.thy ===== *)
theory IpcTypes
  imports ConfigModel
begin

unbundle bit_operations_syntax

text \<open>
  The data that crosses the process boundary, \<open>src/common/src/ipc/types.rs\<close> and
  \<open>stats_client.rs\<close>: flow-rule identifiers with their text form, field identifiers and
  decoded values, counters, snapshots, and the raw slots the backend streams.
\<close>

section \<open>Flow-rule identifiers\<close>

record flow_rule_id =
  id_hi :: u64
  id_lo :: u64

definition display_id :: "flow_rule_id \<Rightarrow> string" where
  "display_id i = hex16 (id_hi i) @ ''-'' @ hex16 (id_lo i)"

definition parse_id :: "string \<Rightarrow> string + flow_rule_id" where
  "parse_id s =
     (case split_once (CHR ''-'') s of
        None \<Rightarrow> Err (''invalid FlowRuleId: missing '-' in '' @ [CHR 0x27] @ s @ [CHR 0x27])
      | Some (hi_str, lo_str) \<Rightarrow>
          and_then (map_err (\<lambda>e. ''invalid FlowRuleId hi: '' @ int_error_msg e)
                      (from_str_radix 64 16 hi_str))
            (\<lambda>hi. and_then (map_err (\<lambda>e. ''invalid FlowRuleId lo: '' @ int_error_msg e)
                      (from_str_radix 64 16 lo_str))
            (\<lambda>lo. Ok \<lparr> id_hi = word_of_nat hi, id_lo = word_of_nat lo \<rparr>)))"

lemma length_display_id [simp]: "length (display_id i) = 33"
  by (simp add: display_id_def)

lemma parse_display: "parse_id (display_id i) = Ok i"
proof -
  have "split_once (CHR ''-'') (display_id i) = Some (hex16 (id_hi i), hex16 (id_lo i))"
    by (simp add: display_id_def split_once_append dash_notin_hex16)
  then show ?thesis by (simp add: parse_id_def parse_hex16)
qed

lemma display_id_inj: "display_id i = display_id j \<longleftrightarrow> i = j"
  by (metis parse_display sum.inject(2))

section \<open>Fields and values\<close>

datatype field_id =
    IdSrcIp | IdDstIp | IdIpProto | IdDscp | IdMirrorSrcIp | IdSrcPort | IdDstPort

text \<open>The discriminants of the \<open>repr(u8)\<close> enum.\<close>

fun field_id_disc :: "field_id \<Rightarrow> u8" where
  "field_id_disc IdSrcIp = 0"
| "field_id_disc IdDstIp = 1"
| "field_id_disc IdIpProto = 2"
| "field_id_disc IdDscp = 3"
| "field_id_disc IdMirrorSrcIp = 4"
| "field_id_disc IdSrcPort = 5"
| "field_id_disc IdDstPort = 6"

fun field_id_debug :: "field_id \<Rightarrow> string" where
  "field_id_debug IdSrcIp = ''SrcIp''"
| "field_id_debug IdDstIp = ''DstIp''"
| "field_id_debug IdIpProto = ''IpProto''"
| "field_id_debug IdDscp = ''Dscp''"
| "field_id_debug IdMirrorSrcIp = ''MirrorSrcIp''"
| "field_id_debug IdSrcPort = ''SrcPort''"
| "field_id_debug IdDstPort = ''DstPort''"

text \<open>\<open>IpAddr\<close>: four or sixteen octets in network order.\<close>

datatype ip_addr = V4 "u8 list" | V6 "u8 list"

datatype field_value = VIp ip_addr | VProto u8 | VDscp u8 | VPort u16

section \<open>Snapshots\<close>

record flow_counters =
  ctr_packets :: u64
  ctr_bytes :: u64
  ctr_first_seen_ns :: u64
  ctr_last_seen_ns :: u64

record flow_stats =
  fl_key :: "field_value list"
  fl_counters :: flow_counters

record flow_rule_counters =
  rc_evictions :: u64
  rc_drops :: u64
  rc_packets :: u64
  rc_bytes :: u64

record flow_rule_stats =
  rs_name :: string
  rs_fields :: "field_id list"
  rs_max_keys :: u32
  rs_eviction_policy :: eviction_policy
  rs_flows :: "flow_stats list"
  rs_counters :: flow_rule_counters

record flow_stats_snapshot =
  sn_tick_id :: u64
  sn_wall_clock_ns :: u64
  sn_monotonic_ns :: u64
  sn_interval_ns :: u64
  sn_flow_rules :: "flow_rule_stats list"

section \<open>Raw snapshots\<close>

record raw_slot =
  sl_key_hash :: u64
  sl_packets :: u64
  sl_bytes :: u64
  sl_key_offset :: u32
  sl_key_len :: u16
  sl_flags :: u16
  sl_last_update :: u64

record raw_descriptor =
  de_flow_rule_id :: flow_rule_id
  de_flow_rule_index :: u32
  de_generation :: u64
  de_epoch_ns :: u64
  de_slots :: "raw_slot list"
  de_key_arena :: "u8 list"
  de_insert_failed :: u64
  de_table_full :: u64

record raw_snapshot =
  raw_descriptors :: "raw_descriptor list"

text \<open>
  Writing an identifier and reading it back gives the identifier: the text form is the
  backend's name of a rule in every snapshot, so two rules never share it.
\<close>

theorem id_text_roundtrip: "parse_id (display_id i) = Ok i"
  by (rule parse_display)

end
