(* ===== verification/Decode.thy ===== *)
theory Decode
  imports IpcTypes
begin

unbundle bit_operations_syntax

text \<open>
  \<open>src/common/src/ipc/decode.rs\<close>: flow keys decoded field by field from raw bytes. The
  decoder is total on lengths, loses nothing, and inverts the encoding that the specification
  of the key layout gives.
\<close>

datatype ipc_error = StatsFormat string

text \<open>\<open>Ipv6Addr::to_ipv4_mapped\<close> on the sixteen octets.\<close>

definition to_ipv4_mapped :: "u8 list \<Rightarrow> u8 list option" where
  "to_ipv4_mapped o16 =
     (if take 12 o16 = replicate 10 0 @ [255, 255] then Some (drop 12 o16) else None)"

definition decode_ip :: "u8 list \<Rightarrow> ip_addr" where
  "decode_ip bytes = (case to_ipv4_mapped bytes of Some v4 \<Rightarrow> V4 v4 | None \<Rightarrow> V6 bytes)"

text \<open>\<open>u16::from_be_bytes\<close>.\<close>

definition from_be_bytes :: "u8 \<Rightarrow> u8 \<Rightarrow> u16" where
  "from_be_bytes a b = push_bit 8 (ucast a) OR ucast b"

definition too_short :: "field_id \<Rightarrow> nat \<Rightarrow> nat \<Rightarrow> nat \<Rightarrow> ipc_error" where
  "too_short f offset need avail =
     StatsFormat (''key too short for '' @ field_id_debug f @ '' at offset '' @ show_nat offset @
       '': need '' @ show_nat need @ '' bytes, have '' @ show_nat (avail - offset))"

definition too_short_byte :: "field_id \<Rightarrow> nat \<Rightarrow> ipc_error" where
  "too_short_byte f offset =
     StatsFormat (''key too short for '' @ field_id_debug f @ '' at offset '' @ show_nat offset)"

text \<open>
  One turn of the loop: the value of the field at the offset, and the bytes consumed. The
  conversion of the slice to an array of sixteen bytes is kept with its error.
\<close>

definition decode_field :: "field_id \<Rightarrow> u8 list \<Rightarrow> nat \<Rightarrow> ipc_error + field_value \<times> nat" where
  "decode_field f key_bytes offset =
     (case f of
        IdIpProto \<Rightarrow>
          if length key_bytes \<le> offset then Err (too_short_byte f offset)
          else Ok (VProto (key_bytes ! offset), 1)
      | IdDscp \<Rightarrow>
          if length key_bytes \<le> offset then Err (too_short_byte f offset)
          else Ok (VDscp (key_bytes ! offset), 1)
      | _ \<Rightarrow>
          if f = IdSrcPort \<or> f = IdDstPort then
            if length key_bytes < offset + 2 then Err (too_short f offset 2 (length key_bytes))
            else Ok (VPort (from_be_bytes (key_bytes ! offset) (key_bytes ! (offset + 1))), 2)
          else
            if length key_bytes < offset + 16 then Err (too_short f offset 16 (length key_bytes))
            else let bytes = take 16 (drop offset key_bytes)
                 in if length bytes \<noteq> 16
                    then Err (StatsFormat (''failed to convert '' @ field_id_debug f @
                           '' bytes at offset '' @ show_nat offset))
                    else Ok (VIp (decode_ip bytes), 16))"

fun decode_fields :: "field_id list \<Rightarrow> u8 list \<Rightarrow> nat \<Rightarrow> field_value list \<Rightarrow>
    ipc_error + field_value list \<times> nat" where
  "decode_fields [] key_bytes offset acc = Ok (acc, offset)"
| "decode_fields (f # fs) key_bytes offset acc =
     and_then (decode_field f key_bytes offset)
       (\<lambda>(v, n). decode_fields fs key_bytes (offset + n) (acc @ [v]))"

definition decode_key :: "field_id list \<Rightarrow> u8 list \<Rightarrow> ipc_error + field_value list" where
  "decode_key flds key_bytes =
     and_then (decode_fields flds key_bytes 0 [])
       (\<lambda>(values, offset).
          if offset \<noteq> length key_bytes
          then Err (StatsFormat (''key has '' @ show_nat (length key_bytes - offset) @ '' trailing bytes''))
          else Ok values)"

section \<open>The layout of a key\<close>

fun id_width :: "field_id \<Rightarrow> nat" where
  "id_width IdIpProto = 1"
| "id_width IdDscp = 1"
| "id_width IdSrcPort = 2"
| "id_width IdDstPort = 2"
| "id_width _ = 16"

fun encode_value :: "field_value \<Rightarrow> u8 list" where
  "encode_value (VIp (V4 a)) = replicate 10 0 @ [255, 255] @ a"
| "encode_value (VIp (V6 a)) = a"
| "encode_value (VProto p) = [p]"
| "encode_value (VDscp d) = [d]"
| "encode_value (VPort p) = [ucast (drop_bit 8 p), ucast p]"

text \<open>
  A value fits a field when it has the field's kind and, for an address, is in the form the
  decoder produces: four octets, or sixteen that are not an IPv4 address in disguise.
\<close>

fun value_fits :: "field_id \<Rightarrow> field_value \<Rightarrow> bool" where
  "value_fits f (VProto _) \<longleftrightarrow> f = IdIpProto"
| "value_fits f (VDscp _) \<longleftrightarrow> f = IdDscp"
| "value_fits f (VPort _) \<longleftrightarrow> f = IdSrcPort \<or> f = IdDstPort"
| "value_fits f (VIp (V4 a)) \<longleftrightarrow> f \<in> {IdSrcIp, IdDstIp, IdMirrorSrcIp} \<and> length a = 4"
| "value_fits f (VIp (V6 a)) \<longleftrightarrow> f \<in> {IdSrcIp, IdDstIp, IdMirrorSrcIp} \<and> length a = 16 \<and>
     to_ipv4_mapped a = None"

lemma length_encode_value: "value_fits f v \<Longrightarrow> length (encode_value v) = id_width f"
  by (cases "(f, v)" rule: value_fits.cases) auto

lemma to_ipv4_mapped_Some:
  assumes "to_ipv4_mapped bs = Some a"
  shows "bs = replicate 10 0 @ [255, 255] @ a"
proof -
  have "take 12 bs = replicate 10 0 @ [255, 255]" "a = drop 12 bs"
    using assms by (auto simp: to_ipv4_mapped_def split: if_splits)
  then show ?thesis using append_take_drop_id [of 12 bs] by simp
qed

lemma decode_ip_fits:
  assumes "length bs = 16" "f \<in> {IdSrcIp, IdDstIp, IdMirrorSrcIp}"
  shows "value_fits f (VIp (decode_ip bs))" "encode_value (VIp (decode_ip bs)) = bs"
proof -
  show "encode_value (VIp (decode_ip bs)) = bs"
    by (auto simp: decode_ip_def dest: to_ipv4_mapped_Some split: option.splits)
  show "value_fits f (VIp (decode_ip bs))"
    using assms by (auto simp: decode_ip_def dest: to_ipv4_mapped_Some split: option.splits)
qed

lemma decode_ip_encode:
  "value_fits f (VIp a) \<Longrightarrow> decode_ip (encode_value (VIp a)) = a"
  by (cases a) (auto simp: decode_ip_def to_ipv4_mapped_def eval_nat_numeral)

lemma be_bytes_split: "from_be_bytes (ucast (drop_bit 8 p)) (ucast p) = p"
  unfolding from_be_bytes_def
  by (rule bit_word_eqI) (auto simp: bit_simps)

lemma be_bytes_join:
  "ucast (drop_bit 8 (from_be_bytes a b)) = a" "ucast (from_be_bytes a b) = b"
  unfolding from_be_bytes_def
  by (rule bit_word_eqI; auto simp: bit_simps dest: bit_imp_le_length)+

lemma take_2: "offset + 2 \<le> length xs \<Longrightarrow> take 2 (drop offset xs) = [xs ! offset, xs ! (offset + 1)]"
  by (simp add: take_Suc_conv_app_nth numeral_2_eq_2)

lemma take_1: "offset < length xs \<Longrightarrow> take 1 (drop offset xs) = [xs ! offset]"
  by (simp add: take_Suc_conv_app_nth)

lemma id_width_cases:
  "id_width f = (if f = IdIpProto \<or> f = IdDscp then 1 else if f = IdSrcPort \<or> f = IdDstPort then 2 else 16)"
  by (cases f) auto

text \<open>Success depends on the length alone.\<close>

lemma decode_field_Ok:
  assumes "offset + id_width f \<le> length key_bytes"
  shows "\<exists>v. decode_field f key_bytes offset = Ok (v, id_width f) \<and> value_fits f v \<and>
    encode_value v = take (id_width f) (drop offset key_bytes)"
proof -
  have ip: "value_fits f (VIp (decode_ip (take 16 (drop offset key_bytes))))"
      "encode_value (VIp (decode_ip (take 16 (drop offset key_bytes)))) = take 16 (drop offset key_bytes)"
    if "f \<in> {IdSrcIp, IdDstIp, IdMirrorSrcIp}"
    using that assms by (auto intro!: decode_ip_fits simp del: value_fits.simps encode_value.simps)
  show ?thesis
    using assms ip
    by (cases f)
      (auto simp: decode_field_def Let_def take_1 [simplified] take_2 [simplified] be_bytes_join
        simp del: encode_value.simps(1,2) value_fits.simps(4,5))
qed

lemma decode_field_Err:
  "offset \<le> length key_bytes \<Longrightarrow> length key_bytes < offset + id_width f \<Longrightarrow>
   \<exists>e. decode_field f key_bytes offset = Err e"
  by (cases f) (auto simp: decode_field_def)

lemma decode_fields_Ok:
  assumes "offset + sum_list (map id_width fs) \<le> length key_bytes"
  shows "\<exists>vs. decode_fields fs key_bytes offset acc =
      Ok (acc @ vs, offset + sum_list (map id_width fs)) \<and>
    list_all2 value_fits fs vs \<and>
    concat (map encode_value vs) = take (sum_list (map id_width fs)) (drop offset key_bytes)"
  using assms
proof (induction fs arbitrary: offset acc)
  case (Cons f fs)
  obtain v where v: "decode_field f key_bytes offset = Ok (v, id_width f)" "value_fits f v"
      "encode_value v = take (id_width f) (drop offset key_bytes)"
    using decode_field_Ok [of offset f key_bytes] Cons.prems by auto
  obtain vs where vs: "decode_fields fs key_bytes (offset + id_width f) (acc @ [v]) =
        Ok ((acc @ [v]) @ vs, offset + id_width f + sum_list (map id_width fs))"
      "list_all2 value_fits fs vs"
      "concat (map encode_value vs) =
        take (sum_list (map id_width fs)) (drop (offset + id_width f) key_bytes)"
    using Cons.IH [of "offset + id_width f" "acc @ [v]"] Cons.prems by auto
  show ?case
    using v vs by (intro exI [of _ "v # vs"]) (simp add: take_add add.commute add.assoc)
qed simp

lemma decode_fields_Err:
  assumes "offset \<le> length key_bytes" "length key_bytes < offset + sum_list (map id_width fs)"
  shows "\<exists>e. decode_fields fs key_bytes offset acc = Err e"
  using assms
proof (induction fs arbitrary: offset acc)
  case (Cons f fs)
  show ?case
  proof (cases "offset + id_width f \<le> length key_bytes")
    case True
    then obtain v where "decode_field f key_bytes offset = Ok (v, id_width f)"
      using decode_field_Ok by blast
    then show ?thesis using Cons True by simp
  next
    case False
    then show ?thesis using decode_field_Err [of offset key_bytes f] Cons.prems by auto
  qed
qed simp

lemma decode_key_length:
  "(\<exists>vs. decode_key flds key_bytes = Ok vs) \<longleftrightarrow> length key_bytes = sum_list (map id_width flds)"
proof (cases "sum_list (map id_width flds) \<le> length key_bytes")
  case True
  then show ?thesis
    using decode_fields_Ok [of 0 flds key_bytes "[]"] by (auto simp: decode_key_def split: if_splits)
next
  case False
  then show ?thesis
    using decode_fields_Err [of 0 key_bytes flds "[]"] by (auto simp: decode_key_def)
qed

lemma encode_length: "list_all2 value_fits fs vs \<Longrightarrow>
    length (concat (map encode_value vs)) = sum_list (map id_width fs)"
  by (induction rule: list_all2_induct) (auto simp: length_encode_value)

text \<open>An encoding determines the value that fits the field.\<close>

lemma encode_value_inj:
  assumes "value_fits f v" "value_fits f w" "encode_value v = encode_value w"
  shows "v = w"
proof (cases "f \<in> {IdSrcIp, IdDstIp, IdMirrorSrcIp}")
  case True
  then obtain a b where "v = VIp a" "w = VIp b"
    using assms(1,2) by (cases v; cases w) auto
  then show ?thesis using assms decode_ip_encode by metis
next
  case False
  have "p = q" if "ucast (drop_bit 8 p) = (ucast (drop_bit 8 q) :: u8)" "ucast p = (ucast q :: u8)"
    for p q :: u16
    using that be_bytes_split by metis
  then show ?thesis
    using False assms
    by (cases "(f, v)" rule: value_fits.cases; cases "(f, w)" rule: value_fits.cases) auto
qed

lemma encode_inj:
  "list_all2 value_fits fs vs \<Longrightarrow> list_all2 value_fits fs ws \<Longrightarrow>
   concat (map encode_value vs) = concat (map encode_value ws) \<Longrightarrow> vs = ws"
proof (induction fs arbitrary: vs ws)
  case (Cons f fs)
  obtain v vs' w ws' where eqs: "vs = v # vs'" "ws = w # ws'"
      and fit: "value_fits f v" "value_fits f w"
      and rest: "list_all2 value_fits fs vs'" "list_all2 value_fits fs ws'"
    using Cons.prems(1,2) by (auto simp: list_all2_Cons1)
  have "length (encode_value v) = length (encode_value w)"
    using fit by (simp add: length_encode_value)
  then have "encode_value v = encode_value w"
      "concat (map encode_value vs') = concat (map encode_value ws')"
    using Cons.prems(3) by (simp_all add: eqs)
  then show ?case
    using eqs fit rest Cons.IH encode_value_inj by blast
qed simp

lemma decode_key_iff:
  "decode_key flds key_bytes = Ok vs \<longleftrightarrow>
   list_all2 value_fits flds vs \<and> concat (map encode_value vs) = key_bytes"
proof (cases "length key_bytes = sum_list (map id_width flds)")
  case True
  obtain ws where "decode_key flds key_bytes = Ok ws" "list_all2 value_fits flds ws"
      "concat (map encode_value ws) = key_bytes"
    using decode_fields_Ok [of 0 flds key_bytes "[]"] True by (auto simp: decode_key_def)
  then show ?thesis using encode_inj by auto
next
  case False
  then show ?thesis using decode_key_length [of flds key_bytes] encode_length by fastforce
qed

section \<open>Properties\<close>

text \<open>
  C20. Decoding inverts the layout exactly: a key decodes to a list of values if and only if
  the values fit the fields one by one and their encodings, concatenated, are the key. So no
  byte is lost, no two keys decode to the same values, and every list of fitting values has a
  key.
\<close>

theorem decode_key_exact:
  "decode_key flds key_bytes = Ok vs \<longleftrightarrow>
   list_all2 value_fits flds vs \<and> concat (map encode_value vs) = key_bytes"
  by (rule decode_key_iff)

text \<open>
  Decoding fails for no other reason than the length: it succeeds exactly on the keys as
  long as the widths of the fields together.
\<close>

theorem decode_key_total:
  "(\<exists>vs. decode_key flds key_bytes = Ok vs) \<longleftrightarrow>
   length key_bytes = sum_list (map id_width flds)"
  by (rule decode_key_length)

end
