(* ===== verification/KeyedMerge.thy ===== *)
theory KeyedMerge
  imports Prelude
begin

text \<open>
  Two components fold a list of per-worker records into one record per key: the VAPI stats
  client with an index map over a vector, and the snapshot decoder with a hash map. The
  interface is the table they keep: a state whose view is a list of keys with their
  accumulated values, and a step that updates the value of a known key or appends a new
  one. The lemmas say what such a fold computes: one entry per key, in the order of first
  occurrence, each the accumulation of the records of its key alone.
\<close>

fun upsert :: "'k \<Rightarrow> ('m \<Rightarrow> 'm) \<Rightarrow> 'm \<Rightarrow> ('k \<times> 'm) list \<Rightarrow> ('k \<times> 'm) list" where
  "upsert k f d [] = [(k, d)]"
| "upsert k f d ((k', m) # xs) = (if k' = k then (k', f m) # xs else (k', m) # upsert k f d xs)"

lemma upsert_notin: "k \<notin> fst ` set xs \<Longrightarrow> upsert k f d xs = xs @ [(k, d)]"
  by (induction xs) auto

lemma upsert_in:
  "k \<in> fst ` set xs \<Longrightarrow> distinct (map fst xs) \<Longrightarrow>
   upsert k f d xs = map (\<lambda>(k', m). (k', if k' = k then f m else m)) xs"
proof (induction xs)
  case (Cons x xs)
  obtain k' m where x: "x = (k', m)" by (cases x)
  show ?case
  proof (cases "k' = k")
    case True
    then have "\<forall>y \<in> set xs. fst y \<noteq> k" using Cons.prems x by auto
    then have "map (\<lambda>(k', m). (k', if k' = k then f m else m)) xs = xs"
      by (intro map_idI) auto
    then show ?thesis using True x by simp
  next
    case False
    then show ?thesis using Cons x by auto
  qed
qed simp

text \<open>The keys of a list in the order of their first occurrence.\<close>

definition first_keys :: "'k list \<Rightarrow> 'k list" where
  "first_keys ks = rev (remdups (rev ks))"

lemma first_keys_simps [simp]:
  "first_keys [] = []"
  "first_keys (ks @ [k]) = (if k \<in> set ks then first_keys ks else first_keys ks @ [k])"
  by (simp_all add: first_keys_def)

lemma set_first_keys [simp]: "set (first_keys ks) = set ks"
  by (simp add: first_keys_def)

lemma distinct_first_keys [simp]: "distinct (first_keys ks)"
  by (simp add: first_keys_def)

locale keyed_merge =
  fixes ident :: "'e \<Rightarrow> 'k"
    and start :: "'e \<Rightarrow> 'm"
    and bump :: "'m \<Rightarrow> 'e \<Rightarrow> 'm"
    and empty_table :: 's
    and step :: "'e \<Rightarrow> 's \<Rightarrow> 's"
    and view :: "'s \<Rightarrow> ('k \<times> 'm) list"
    and inv :: "'s \<Rightarrow> bool"
  assumes inv_empty: "inv empty_table"
    and view_empty: "view empty_table = []"
    and inv_step: "inv s \<Longrightarrow> inv (step e s)"
    and view_step: "inv s \<Longrightarrow> view (step e s) = upsert (ident e) (\<lambda>m. bump m e) (start e) (view s)"
begin

definition combine :: "'e list \<Rightarrow> 'm" where
  "combine es = foldl bump (start (hd es)) (tl es)"

lemma combine_single [simp]: "combine [e] = start e"
  by (simp add: combine_def)

lemma combine_snoc: "es \<noteq> [] \<Longrightarrow> combine (es @ [e]) = bump (combine es) e"
  by (simp add: combine_def)

definition groups :: "'e list \<Rightarrow> ('k \<times> 'm) list" where
  "groups es = map (\<lambda>k. (k, combine (filter (\<lambda>e. ident e = k) es))) (first_keys (map ident es))"

lemma groups_keys: "map fst (groups es) = first_keys (map ident es)"
  by (simp add: groups_def o_def)

lemma groups_snoc:
  "groups (es @ [e]) = upsert (ident e) (\<lambda>m. bump m e) (start e) (groups es)"
proof (cases "ident e \<in> set (map ident es)")
  case True
  have ne: "filter (\<lambda>e'. ident e' = ident e) es \<noteq> []"
    using True by (auto simp: filter_empty_conv)
  have keys: "fst ` set (groups es) = set (map ident es)"
    using arg_cong [OF groups_keys [of es], of set] by simp
  have "distinct (map fst (groups es))" by (simp only: groups_keys distinct_first_keys)
  then have "upsert (ident e) (\<lambda>m. bump m e) (start e) (groups es) =
      map (\<lambda>(k', m). (k', if k' = ident e then bump m e else m)) (groups es)"
    using True by (intro upsert_in) (simp only: keys)
  also have "\<dots> = groups (es @ [e])"
    using True ne by (auto simp: groups_def combine_snoc)
  finally show ?thesis ..
next
  case False
  have keys: "fst ` set (groups es) = set (map ident es)"
    using arg_cong [OF groups_keys [of es], of set] by simp
  have old: "combine (filter (\<lambda>e'. ident e' = k) (es @ [e])) =
      combine (filter (\<lambda>e'. ident e' = k) es)" if "k \<in> set (map ident es)" for k
    using that False by (auto intro!: arg_cong [where f = combine])
  have new: "filter (\<lambda>e'. ident e' = ident e) es = []"
    using False by (auto simp: filter_empty_conv) (metis imageI)
  have "groups (es @ [e]) = groups es @ [(ident e, start e)]"
    using False old by (auto simp: groups_def new)
  then show ?thesis using False by (simp only: keys upsert_notin not_False_eq_True)
qed

lemma fold_inv: "inv (fold step es empty_table)"
  by (induction es rule: rev_induct) (auto simp: inv_empty inv_step)

lemma fold_groups: "view (fold step es empty_table) = groups es"
proof (induction es rule: rev_induct)
  case Nil
  then show ?case by (simp add: view_empty groups_def)
next
  case (snoc e es)
  then show ?case by (simp add: view_step fold_inv groups_snoc)
qed

lemma fold_keys_distinct: "distinct (map fst (view (fold step es empty_table)))"
  by (simp only: fold_groups groups_keys distinct_first_keys)

text \<open>A quantity that every bump accumulates comes out as the fold over the key's records.\<close>

lemma combine_measure:
  assumes "\<And>e. f (start e) = g e" and "\<And>m e. f (bump m e) = h (f m) (g e)" and "es \<noteq> []"
  shows "f (combine es) = foldl h (g (hd es)) (map g (tl es))"
proof -
  have "f (foldl bump m xs) = foldl h (f m) (map g xs)" for m xs
    by (induction xs arbitrary: m) (simp_all add: assms(2))
  then show ?thesis by (simp add: combine_def assms(1))
qed

lemma groups_member:
  assumes "(k, m) \<in> set (groups es)"
  shows "m = combine (filter (\<lambda>e. ident e = k) es)" "filter (\<lambda>e. ident e = k) es \<noteq> []"
  using assms by (auto simp: groups_def filter_empty_conv)

end

text \<open>Saturating sums and running maxima over a group.\<close>

definition sat_total :: "u64 list \<Rightarrow> nat" where
  "sat_total ws = min (2 ^ 64 - 1) (sum_list (map unat ws))"

lemma sat_total_foldl:
  "ws \<noteq> [] \<Longrightarrow> unat (foldl sat_add (hd ws) (tl ws)) = sat_total ws"
  by (cases ws) (simp_all add: sat_total_def sat_add_fold)

lemma foldl_max_Max:
  "ws \<noteq> [] \<Longrightarrow> foldl max (hd ws) (tl ws) = Max (set (ws :: 'a::linorder list))"
proof (induction ws rule: rev_induct)
  case (snoc w ws)
  show ?case
  proof (cases "ws = []")
    case False
    have "Max (set (ws @ [w])) = Max (insert w (set ws))" by simp
    also have "\<dots> = max w (Max (set ws))" using False by (intro Max.insert) auto
    finally show ?thesis using False snoc by (simp add: max.commute)
  qed simp
qed simp

text \<open>Saturating twice is saturating once, so totals of totals are totals.\<close>

lemma min_sum_min:
  "min (M::nat) (sum_list (map (\<lambda>x. min M (f x)) xs)) = min M (sum_list (map f xs))"
proof (induction xs)
  case (Cons x xs)
  have "min M (a + b) = min M (a + min M b)" "min M (a + b) = min M (min M a + b)" for a b :: nat
    by (simp_all add: min_def)
  then show ?case using Cons.IH by (metis (no_types, lifting) list.simps(9) sum_list.Cons)
qed simp

lemma sum_over_groups:
  assumes "distinct ks" "\<forall>e \<in> set es. ident e \<in> set ks"
  shows "sum_list (map (\<lambda>k. sum_list (map f (filter (\<lambda>e. ident e = k) es))) ks) =
    (sum_list (map f es) :: nat)"
  using assms(2)
proof (induction es)
  case (Cons e es)
  have one: "sum_list (map (\<lambda>k. if ident e = k then f e else 0) ks) = f e"
    using assms(1) Cons.prems by (simp add: sum_list_distinct_conv_sum_set)
  have "map f (filter (\<lambda>e. ident e = k) (e # es)) =
      (if ident e = k then f e # map f (filter (\<lambda>e. ident e = k) es)
       else map f (filter (\<lambda>e. ident e = k) es))" for k
    by simp
  then have "sum_list (map (\<lambda>k. sum_list (map f (filter (\<lambda>e. ident e = k) (e # es)))) ks) =
      sum_list (map (\<lambda>k. (if ident e = k then f e else 0) +
        sum_list (map f (filter (\<lambda>e. ident e = k) es))) ks)"
    by (intro arg_cong [where f = sum_list] map_cong) auto
  also have "\<dots> = f e + sum_list (map f es)"
    using one Cons by (simp add: sum_list_addf)
  finally show ?case by simp
qed (simp add: sum_list_0)

lemma Max_over_groups:
  fixes f :: "'e \<Rightarrow> 'a::linorder"
  assumes "ms \<noteq> []" "\<forall>m \<in> set ms. grp m \<noteq> [] \<and> g m = Max (set (map f (grp m)))"
    and "set es = (\<Union>m \<in> set ms. set (grp m))"
  shows "Max (set (map g ms)) = Max (set (map f es))"
proof (rule antisym)
  have mem: "\<exists>e \<in> set es. g m = f e" if "m \<in> set ms" for m
  proof -
    have "Max (set (map f (grp m))) \<in> set (map f (grp m))"
      using assms(2) that by (intro Max_in) auto
    then have "g m \<in> f ` set (grp m)" using assms(2) that by simp
    then obtain e where "e \<in> set (grp m)" "g m = f e" by blast
    then show ?thesis using assms(3) that by blast
  qed
  have le: "\<exists>m \<in> set ms. f e \<le> g m" if "e \<in> set es" for e
    using assms(2,3) that by (auto intro!: bexI Max_ge)
  have ne: "es \<noteq> []" using assms by (cases ms) auto
  show "Max (set (map g ms)) \<le> Max (set (map f es))"
    using mem assms(1) by (auto intro!: Max.boundedI) (metis List.finite_set Max_ge finite_imageI image_eqI)
  show "Max (set (map f es)) \<le> Max (set (map g ms))"
    using le ne by (auto intro!: Max.boundedI) (meson List.finite_set Max_ge finite_imageI image_eqI order_trans)
qed

end
