(* ===== verification/VapiClient.thy ===== *)
theory VapiClient
  imports Decode KeyedMerge
begin

text \<open>
  The two clients of the VPP binary API, \<open>src/frontend/src/vapi_stats_client.rs\<close> and
  \<open>vapi_control_client.rs\<close>. The C side of the API is the parameter: what it answers to a
  listing, what entries it streams for a rule and with which return value, and how it
  answers an addition or a deletion. Modelled are the collection of the streamed entries,
  the merge of the entries of different workers, the packing of keys into an arena, and the
  two control operations.
\<close>

datatype vapi_error =
    ConnectFailed
  | SnapshotFailed string
  | ListFailed
  | FlowRuleFailed string

fun vapi_error_msg :: "vapi_error \<Rightarrow> string" where
  "vapi_error_msg ConnectFailed = ''failed to connect to VPP API''"
| "vapi_error_msg (SnapshotFailed s) = ''snapshot_inline_dump failed: '' @ s"
| "vapi_error_msg ListFailed = ''list_flow_rules failed''"
| "vapi_error_msg (FlowRuleFailed s) = ''flow rule operation failed: '' @ s"

text \<open>A C \<open>int\<close> as it displays.\<close>

definition show_int :: "int \<Rightarrow> string" where
  "show_int i = (if i < 0 then ''-'' @ show_nat (nat (- i)) else show_nat (nat i))"

section \<open>Entries streamed through the callback\<close>

text \<open>The key pointer is \<open>None\<close> when null, else the readable bytes it points to.\<close>

record ffi_flow_entry =
  fe_flow_rule_id_hi :: u64
  fe_flow_rule_id_lo :: u64
  fe_generation :: u64
  fe_epoch_ns :: u64
  fe_insert_failed :: u64
  fe_table_full :: u64
  fe_key_hash :: u64
  fe_packets :: u64
  fe_bytes :: u64
  fe_last_update :: u64
  fe_key_len :: u16
  fe_key_data :: "u8 list option"

record collected_entry =
  ce_flow_rule_id_hi :: u64
  ce_flow_rule_id_lo :: u64
  ce_generation :: u64
  ce_epoch_ns :: u64
  ce_insert_failed :: u64
  ce_table_full :: u64
  ce_key_hash :: u64
  ce_packets :: u64
  ce_bytes :: u64
  ce_last_update :: u64
  ce_key_bytes :: "u8 list"

definition entry_cb :: "ffi_flow_entry \<Rightarrow> collected_entry" where
  "entry_cb e =
     \<lparr> ce_flow_rule_id_hi = fe_flow_rule_id_hi e,
       ce_flow_rule_id_lo = fe_flow_rule_id_lo e,
       ce_generation = fe_generation e,
       ce_epoch_ns = fe_epoch_ns e,
       ce_insert_failed = fe_insert_failed e,
       ce_table_full = fe_table_full e,
       ce_key_hash = fe_key_hash e,
       ce_packets = fe_packets e,
       ce_bytes = fe_bytes e,
       ce_last_update = fe_last_update e,
       ce_key_bytes =
         (case fe_key_data e of
            None \<Rightarrow> []
          | Some d \<Rightarrow> if 0 < fe_key_len e then take (unat (fe_key_len e)) d else []) \<rparr>"

section \<open>Merging the entries of the workers\<close>

type_synonym entry_key = "u64 \<times> u8 list"

definition entry_identity :: "collected_entry \<Rightarrow> entry_key" where
  "entry_identity e = (ce_key_hash e, ce_key_bytes e)"

definition merge_into :: "collected_entry \<Rightarrow> collected_entry \<Rightarrow> collected_entry" where
  "merge_into m e =
     m\<lparr> ce_packets := sat_add (ce_packets m) (ce_packets e),
        ce_bytes := sat_add (ce_bytes m) (ce_bytes e),
        ce_last_update := (if ce_last_update m < ce_last_update e then ce_last_update e
                           else ce_last_update m),
        ce_epoch_ns := (if ce_epoch_ns m < ce_epoch_ns e then ce_epoch_ns e
                        else ce_epoch_ns m) \<rparr>"

definition merge_step ::
    "collected_entry \<Rightarrow> (entry_key \<rightharpoonup> nat) \<times> collected_entry list \<Rightarrow>
     (entry_key \<rightharpoonup> nat) \<times> collected_entry list" where
  "merge_step e st =
     (case st of (index_map, merged) \<Rightarrow>
        (case index_map (entry_identity e) of
           Some idx \<Rightarrow> (index_map, merged[idx := merge_into (merged ! idx) e])
         | None \<Rightarrow> (index_map(entry_identity e \<mapsto> length merged), merged @ [e])))"

definition merge_worker_entries :: "collected_entry list \<Rightarrow> collected_entry list" where
  "merge_worker_entries entries = snd (fold merge_step entries (Map.empty, []))"

definition merge_view ::
    "(entry_key \<rightharpoonup> nat) \<times> collected_entry list \<Rightarrow> (entry_key \<times> collected_entry) list" where
  "merge_view st = map (\<lambda>m. (entry_identity m, m)) (snd st)"

text \<open>The index map records, for each identity, its place in the vector.\<close>

definition index_inv :: "(entry_key \<rightharpoonup> nat) \<times> collected_entry list \<Rightarrow> bool" where
  "index_inv st \<longleftrightarrow>
     (case st of (index_map, merged) \<Rightarrow>
        distinct (map entry_identity merged) \<and>
        (\<forall>k i. index_map k = Some i \<longleftrightarrow> i < length merged \<and> entry_identity (merged ! i) = k))"

lemma index_invD:
  assumes "index_inv (im, merged)"
  shows "distinct (map entry_identity merged)"
    and "im k = Some i \<longleftrightarrow> i < length merged \<and> entry_identity (merged ! i) = k"
  using assms by (simp_all add: index_inv_def del: split_paired_All)

lemma index_invI:
  assumes "distinct (map entry_identity merged)"
    and "\<And>k i. im k = Some i \<longleftrightarrow> i < length merged \<and> entry_identity (merged ! i) = k"
  shows "index_inv (im, merged)"
  using assms by (simp add: index_inv_def del: split_paired_All)

lemma entry_identity_merge_into [simp]: "entry_identity (merge_into m e) = entry_identity m"
  by (simp add: entry_identity_def merge_into_def)

lemma map_identity_update:
  "i < length merged \<Longrightarrow>
   map entry_identity (merged[i := merge_into (merged ! i) e]) = map entry_identity merged"
  by (simp add: map_update list_update_same_conv)

lemma index_inv_None:
  assumes "index_inv (im, merged)" "im k = None"
  shows "k \<notin> set (map entry_identity merged)"
proof
  assume "k \<in> set (map entry_identity merged)"
  then obtain i where "i < length merged" "entry_identity (merged ! i) = k"
    by (auto simp: in_set_conv_nth)
  then show False using assms index_invD(2) [OF assms(1), of k i] by simp
qed

lemma merge_step_inv:
  assumes "index_inv st"
  shows "index_inv (merge_step e st)"
proof -
  obtain im merged where st: "st = (im, merged)" by (cases st)
  note inv = index_invD [OF assms [unfolded st]]
  show ?thesis
  proof (cases "im (entry_identity e)")
    case None
    have new: "entry_identity e \<notin> set (map entry_identity merged)"
      using assms None unfolding st by (rule index_inv_None)
    have "index_inv (im(entry_identity e \<mapsto> length merged), merged @ [e])"
    proof (rule index_invI)
      show "distinct (map entry_identity (merged @ [e]))" using inv(1) new by simp
      fix k i
      have "entry_identity (merged ! i) \<noteq> entry_identity e" if "i < length merged"
        using new that by (metis imageI nth_mem set_map)
      then show "(im(entry_identity e \<mapsto> length merged)) k = Some i \<longleftrightarrow>
          i < length (merged @ [e]) \<and> entry_identity ((merged @ [e]) ! i) = k"
        using inv(2) [of k i] by (auto simp: nth_append less_Suc_eq)
    qed
    then show ?thesis using None by (simp add: st merge_step_def)
  next
    case (Some i)
    then have i: "i < length merged" using inv(2) by blast
    have "index_inv (im, merged[i := merge_into (merged ! i) e])"
    proof (rule index_invI)
      show "distinct (map entry_identity (merged[i := merge_into (merged ! i) e]))"
        using inv(1) by (simp only: map_identity_update [OF i])
      fix k j
      show "im k = Some j \<longleftrightarrow> j < length (merged[i := merge_into (merged ! i) e]) \<and>
          entry_identity (merged[i := merge_into (merged ! i) e] ! j) = k"
        using inv(2) [of k j] i by (cases "j = i") (auto simp: nth_list_update)
    qed
    then show ?thesis using Some by (simp add: st merge_step_def)
  qed
qed

lemma merge_step_view:
  assumes "index_inv st"
  shows "merge_view (merge_step e st) =
    upsert (entry_identity e) (\<lambda>m. merge_into m e) e (merge_view st)"
proof -
  obtain im merged where st: "st = (im, merged)" by (cases st)
  have img: "fst ` set (merge_view st) = set (map entry_identity merged)"
    by (simp add: st merge_view_def image_image)
  have d: "distinct (map fst (merge_view st))"
    using index_invD(1) [OF assms [unfolded st]] by (simp add: st merge_view_def o_def)
  show ?thesis
  proof (cases "im (entry_identity e)")
    case None
    then have "entry_identity e \<notin> fst ` set (merge_view st)"
      unfolding img by (rule index_inv_None [OF assms [unfolded st]])
    then show ?thesis
      using None by (simp add: upsert_notin) (simp add: st merge_step_def merge_view_def)
  next
    case (Some i)
    then have i: "i < length merged" "entry_identity (merged ! i) = entry_identity e"
      using index_invD(2) [OF assms [unfolded st]] by blast+
    have unique: "j = i" if "j < length merged" "entry_identity (merged ! j) = entry_identity e" for j
      using index_invD(2) [OF assms [unfolded st], of "entry_identity e" j] Some that by simp
    have "entry_identity e \<in> fst ` set (merge_view st)"
      unfolding img using i by (metis imageI nth_mem set_map)
    then have "upsert (entry_identity e) (\<lambda>m. merge_into m e) e (merge_view st) =
        map (\<lambda>(k', m). (k', if k' = entry_identity e then merge_into m e else m)) (merge_view st)"
      using d by (rule upsert_in)
    also have "\<dots> = merge_view (im, merged[i := merge_into (merged ! i) e])"
    proof (rule nth_equalityI, goal_cases)
      case 1
      show ?case by (simp add: st merge_view_def)
    next
      case (2 j)
      then have j: "j < length merged" by (simp add: st merge_view_def)
      show ?case
      proof (cases "j = i")
        case True
        then show ?thesis using i by (simp add: st merge_view_def)
      next
        case False
        then have "entry_identity (merged ! j) \<noteq> entry_identity e" using unique j by blast
        then show ?thesis using False j by (simp add: st merge_view_def)
      qed
    qed
    also have "\<dots> = merge_view (merge_step e st)"
      using Some by (simp add: st merge_step_def)
    finally show ?thesis ..
  qed
qed

interpretation worker_merge: keyed_merge entry_identity "\<lambda>e. e" merge_into "(Map.empty, [])"
  merge_step merge_view index_inv
proof (unfold_locales, goal_cases)
  case 1
  show ?case by (simp add: index_inv_def)
next
  case 2
  show ?case by (simp add: merge_view_def)
next
  case (3 s e)
  then show ?case by (rule merge_step_inv)
next
  case (4 s e)
  then show ?case by (rule merge_step_view)
qed

lemma merge_worker_groups:
  "merge_worker_entries es = map snd (worker_merge.groups es)"
  using worker_merge.fold_groups [of es]
  by (simp add: merge_view_def merge_worker_entries_def o_def flip: worker_merge.fold_groups)

lemma merge_worker_identities:
  "map entry_identity (merge_worker_entries es) = first_keys (map entry_identity es)"
proof -
  have "map entry_identity (merge_worker_entries es) = map fst (worker_merge.groups es)"
    by (simp add: merge_worker_entries_def merge_view_def o_def flip: worker_merge.fold_groups)
  then show ?thesis by (simp only: worker_merge.groups_keys)
qed

lemma merge_worker_member:
  assumes "m \<in> set (merge_worker_entries es)"
  defines "g \<equiv> filter (\<lambda>e. entry_identity e = entry_identity m) es"
  shows "m = worker_merge.combine g" "g \<noteq> []"
proof -
  have "(entry_identity m, m) \<in> set (merge_view (fold merge_step es (Map.empty, [])))"
    using assms(1) by (auto simp: merge_view_def merge_worker_entries_def)
  then have "(entry_identity m, m) \<in> set (worker_merge.groups es)"
    by (simp only: worker_merge.fold_groups)
  then show "m = worker_merge.combine g" "g \<noteq> []"
    unfolding g_def by (rule worker_merge.groups_member)+
qed

lemma if_less_max: "(if a < b then b else a) = max a (b :: 'a::linorder)"
  by (auto simp: max_def)

text \<open>The accumulated record of one identity, from the records of that identity.\<close>

definition summarises :: "collected_entry \<Rightarrow> collected_entry list \<Rightarrow> bool" where
  "summarises m g \<longleftrightarrow>
     unat (ce_packets m) = sat_total (map ce_packets g) \<and>
     unat (ce_bytes m) = sat_total (map ce_bytes g) \<and>
     ce_last_update m = Max (set (map ce_last_update g)) \<and>
     ce_epoch_ns m = Max (set (map ce_epoch_ns g)) \<and>
     ce_insert_failed m = ce_insert_failed (hd g) \<and>
     ce_generation m = ce_generation (hd g)"

lemma combine_summarises:
  assumes "g \<noteq> []"
  shows "summarises (worker_merge.combine g) g"
proof -
  let ?m = "worker_merge.combine g"
  have "ce_packets ?m = foldl sat_add (ce_packets (hd g)) (map ce_packets (tl g))"
    using assms by (intro worker_merge.combine_measure) (auto simp: merge_into_def)
  moreover have "ce_bytes ?m = foldl sat_add (ce_bytes (hd g)) (map ce_bytes (tl g))"
    using assms by (intro worker_merge.combine_measure) (auto simp: merge_into_def)
  moreover have "ce_last_update ?m = foldl max (ce_last_update (hd g)) (map ce_last_update (tl g))"
    using assms by (intro worker_merge.combine_measure) (auto simp: merge_into_def if_less_max)
  moreover have "ce_epoch_ns ?m = foldl max (ce_epoch_ns (hd g)) (map ce_epoch_ns (tl g))"
    using assms by (intro worker_merge.combine_measure) (auto simp: merge_into_def if_less_max)
  moreover have "ce_insert_failed ?m = foldl (\<lambda>a _. a) (ce_insert_failed (hd g)) (map ce_insert_failed (tl g))"
    using assms by (intro worker_merge.combine_measure) (auto simp: merge_into_def)
  moreover have "ce_generation ?m = foldl (\<lambda>a _. a) (ce_generation (hd g)) (map ce_generation (tl g))"
    using assms by (intro worker_merge.combine_measure) (auto simp: merge_into_def)
  moreover have "foldl (\<lambda>a _. a) x ys = x" for x :: u64 and ys :: "u64 list"
    by (induction ys) auto
  ultimately show ?thesis
    using assms sat_total_foldl [of "map ce_packets g"] sat_total_foldl [of "map ce_bytes g"]
      foldl_max_Max [of "map ce_last_update g"] foldl_max_Max [of "map ce_epoch_ns g"]
    by (simp add: summarises_def hd_map map_tl)
qed

section \<open>Packing a snapshot\<close>

definition pack_step :: "collected_entry \<Rightarrow> u8 list \<times> raw_slot list \<Rightarrow> u8 list \<times> raw_slot list" where
  "pack_step e st =
     (case st of (key_arena, slots) \<Rightarrow>
        (key_arena @ ce_key_bytes e,
         slots @ [\<lparr> sl_key_hash = ce_key_hash e,
                    sl_packets = ce_packets e,
                    sl_bytes = ce_bytes e,
                    sl_key_offset = word_of_nat (length key_arena),
                    sl_key_len = word_of_nat (length (ce_key_bytes e)),
                    sl_flags = 1,
                    sl_last_update = ce_last_update e \<rparr>]))"

definition pack_slots :: "collected_entry list \<Rightarrow> u8 list \<times> raw_slot list" where
  "pack_slots merged = fold pack_step merged ([], [])"

definition build_descriptor :: "flow_rule_id \<Rightarrow> collected_entry list \<Rightarrow> raw_descriptor" where
  "build_descriptor frid entries =
     (let first = hd entries;
          packed = pack_slots (merge_worker_entries entries)
      in \<lparr> de_flow_rule_id = frid,
           de_flow_rule_index = 0,
           de_generation = ce_generation first,
           de_epoch_ns = ce_epoch_ns first,
           de_slots = snd packed,
           de_key_arena = fst packed,
           de_insert_failed = ce_insert_failed first,
           de_table_full = ce_table_full first \<rparr>)"

text \<open>What the API answers during one snapshot.\<close>

record vapi_answers =
  va_list :: "(u64 \<times> u64) list \<times> int"
  va_snapshot :: "u64 \<Rightarrow> u64 \<Rightarrow> ffi_flow_entry list \<times> int"

definition connect_handle :: "(string \<Rightarrow> 'h option) \<Rightarrow> string \<Rightarrow> vapi_error + 'h" where
  "connect_handle ffi_connect name =
     (if CHR 0x00 \<in> set name then Err ConnectFailed
      else case ffi_connect name of None \<Rightarrow> Err ConnectFailed | Some h \<Rightarrow> Ok h)"

definition list_flow_rules :: "vapi_answers \<Rightarrow> vapi_error + flow_rule_id list" where
  "list_flow_rules api =
     (case va_list api of (ids, rv) \<Rightarrow>
        if rv \<noteq> 0 then Err ListFailed
        else Ok (map (\<lambda>(hi, lo). \<lparr> id_hi = hi, id_lo = lo \<rparr>) ids))"

fun collect_descriptors :: "vapi_answers \<Rightarrow> flow_rule_id list \<Rightarrow> raw_descriptor list" where
  "collect_descriptors api [] = []"
| "collect_descriptors api (frid # frids) =
     (case va_snapshot api (id_hi frid) (id_lo frid) of (streamed, rv) \<Rightarrow>
        let entries = map entry_cb streamed
        in if rv \<noteq> 0 then collect_descriptors api frids
           else if entries = [] then collect_descriptors api frids
           else build_descriptor frid entries # collect_descriptors api frids)"

definition snapshot_and_clear :: "vapi_answers \<Rightarrow> vapi_error + raw_snapshot" where
  "snapshot_and_clear api =
     and_then (list_flow_rules api)
       (\<lambda>ids. Ok \<lparr> raw_descriptors = collect_descriptors api ids \<rparr>)"

section \<open>Control operations\<close>

fun field_to_u8 :: "field \<Rightarrow> u8" where
  "field_to_u8 SrcIp = 0"
| "field_to_u8 DstIp = 1"
| "field_to_u8 IpProto = 2"
| "field_to_u8 Dscp = 3"
| "field_to_u8 MirrorSrcIp = 4"
| "field_to_u8 SrcPort = 5"
| "field_to_u8 DstPort = 6"

text \<open>
  The backend keeps a state of its own; it answers an addition with a return value and the
  two halves of the new identifier, a deletion with a return value.
\<close>

record 'b control_backend =
  cb_add :: "string \<Rightarrow> u8 list \<Rightarrow> u32 \<Rightarrow> u32 \<Rightarrow> u8 \<Rightarrow> 'b \<Rightarrow> (int \<times> u64 \<times> u64) \<times> 'b"
  cb_del :: "u64 \<Rightarrow> u64 \<Rightarrow> 'b \<Rightarrow> int \<times> 'b"

definition vapi_flow_rule_add ::
    "'b control_backend \<Rightarrow> string \<Rightarrow> field list \<Rightarrow> u32 \<Rightarrow> eviction_policy \<Rightarrow> 'b \<Rightarrow>
     (vapi_error + flow_rule_id) \<times> 'b" where
  "vapi_flow_rule_add be name flds max_keys policy b =
     (if CHR 0x00 \<in> set name then (Err (FlowRuleFailed ''invalid name''), b)
      else let field_bytes = map field_to_u8 flds;
               eviction = (case policy of LruDrop \<Rightarrow> 0)
           in case cb_add be name field_bytes (word_of_nat (length field_bytes)) max_keys eviction b of
                ((rv, hi, lo), b') \<Rightarrow>
                  (if rv \<noteq> 0
                   then (Err (FlowRuleFailed (''flow_rule_add failed (rv='' @ show_int rv @ '')'')), b')
                   else (Ok \<lparr> id_hi = hi, id_lo = lo \<rparr>, b')))"

definition vapi_flow_rule_del ::
    "'b control_backend \<Rightarrow> flow_rule_id \<Rightarrow> 'b \<Rightarrow> (vapi_error + unit) \<times> 'b" where
  "vapi_flow_rule_del be i b =
     (case cb_del be (id_hi i) (id_lo i) b of (rv, b') \<Rightarrow>
        (if rv \<noteq> 0
         then (Err (FlowRuleFailed (''flow_rule_del failed (rv='' @ show_int rv @ '')'')), b')
         else (Ok (), b')))"

section \<open>What the packing keeps\<close>

fun slots_from :: "nat \<Rightarrow> collected_entry list \<Rightarrow> raw_slot list" where
  "slots_from n [] = []"
| "slots_from n (e # es) =
     \<lparr> sl_key_hash = ce_key_hash e, sl_packets = ce_packets e, sl_bytes = ce_bytes e,
       sl_key_offset = word_of_nat n, sl_key_len = word_of_nat (length (ce_key_bytes e)),
       sl_flags = 1, sl_last_update = ce_last_update e \<rparr> # slots_from (n + length (ce_key_bytes e)) es"

lemma fold_pack_step:
  "fold pack_step es (a, ss) =
   (a @ concat (map ce_key_bytes es), ss @ slots_from (length a) es)"
  by (induction es arbitrary: a ss) (simp_all add: pack_step_def)

lemma pack_slots_eq: "pack_slots es = (concat (map ce_key_bytes es), slots_from 0 es)"
  by (simp add: pack_slots_def fold_pack_step)

lemma entry_cb_key_length: "length (ce_key_bytes (entry_cb e)) < 2 ^ 16"
  using unat_less_exp [of "fe_key_len e"] by (auto simp: entry_cb_def split: option.splits)

section \<open>Properties\<close>

text \<open>
  C21. The merge of the workers' entries yields one entry per flow identity (key hash and key
  bytes), in the order the identities first appear; each carries the saturating sums of the
  packets and bytes of all entries of its identity, their latest update and epoch, and the
  error counters of the first of them only.
\<close>

theorem merge_workers_exact:
  "map entry_identity (merge_worker_entries es) = first_keys (map entry_identity es) \<and>
   list_all (\<lambda>m. summarises m (filter (\<lambda>e. entry_identity e = entry_identity m) es))
     (merge_worker_entries es)"
proof -
  have "summarises m (filter (\<lambda>e. entry_identity e = entry_identity m) es)"
    if "m \<in> set (merge_worker_entries es)" for m
    using merge_worker_member [OF that] combine_summarises by metis
  then show ?thesis by (simp only: merge_worker_identities list_all_iff) simp
qed

end
