(* ===== verification/Channel.thy ===== *)
theory Channel
  imports Prelude
begin

text \<open>
  The bounded channels of \<open>src/frontend/src/exporter.rs\<close>: \<open>std::sync::mpsc::sync_channel\<close>
  with its senders, its receiver and its queue, and the snapshot channel built on it, which
  clamps a zero capacity and drops the newest snapshot when full. The interface
  \<open>bounded_fifo\<close> states what the ends promise; its lemmas say what a receiver gets out of
  any interleaving of sends and receives.
\<close>

section \<open>The standard channel\<close>

record 'a chan =
  ch_capacity :: nat
  ch_queue :: "'a list"
  ch_senders :: nat
  ch_receiver :: bool

definition sync_channel :: "nat \<Rightarrow> 'a chan" where
  "sync_channel cap = \<lparr> ch_capacity = cap, ch_queue = [], ch_senders = 1, ch_receiver = True \<rparr>"

datatype try_send_error = Full | Disconnected

definition mpsc_try_send :: "'a \<Rightarrow> 'a chan \<Rightarrow> (try_send_error + unit) \<times> 'a chan" where
  "mpsc_try_send x ch =
     (if \<not> ch_receiver ch then (Err Disconnected, ch)
      else if length (ch_queue ch) < ch_capacity ch
        then (Ok (), ch\<lparr>ch_queue := ch_queue ch @ [x]\<rparr>)
      else (Err Full, ch))"

text \<open>A receive takes the oldest item, waits while a sender is left, or reports the end.\<close>

datatype 'a recv_outcome = Received 'a | Waiting | HungUp

definition mpsc_recv :: "'a chan \<Rightarrow> 'a recv_outcome \<times> 'a chan" where
  "mpsc_recv ch =
     (case ch_queue ch of
        x # xs \<Rightarrow> (Received x, ch\<lparr>ch_queue := xs\<rparr>)
      | [] \<Rightarrow> (if ch_senders ch = 0 then HungUp else Waiting, ch))"

definition mpsc_try_recv :: "'a chan \<Rightarrow> 'a option \<times> 'a chan" where
  "mpsc_try_recv ch =
     (case ch_queue ch of x # xs \<Rightarrow> (Some x, ch\<lparr>ch_queue := xs\<rparr>) | [] \<Rightarrow> (None, ch))"

definition clone_sender :: "'a chan \<Rightarrow> 'a chan" where
  "clone_sender ch = ch\<lparr>ch_senders := ch_senders ch + 1\<rparr>"

definition drop_sender :: "'a chan \<Rightarrow> 'a chan" where
  "drop_sender ch = ch\<lparr>ch_senders := ch_senders ch - 1\<rparr>"

definition drop_receiver :: "'a chan \<Rightarrow> 'a chan" where
  "drop_receiver ch = ch\<lparr>ch_receiver := False, ch_queue := []\<rparr>"

section \<open>The snapshot channel\<close>

definition snapshot_channel :: "nat \<Rightarrow> 'a chan" where
  "snapshot_channel capacity = (let cap = (if capacity = 0 then 1 else capacity) in sync_channel cap)"

definition sender_try_send :: "'a \<Rightarrow> 'a chan \<Rightarrow> (try_send_error + unit) \<times> 'a chan" where
  "sender_try_send snap ch =
     (case mpsc_try_send snap ch of
        (Ok _, ch') \<Rightarrow> (Ok (), ch')
      | (Err Full, ch') \<Rightarrow> (Err Full, ch')
      | (Err Disconnected, ch') \<Rightarrow> (Err Disconnected, ch'))"

text \<open>The blocking receive as the exporter thread sees it: \<open>None\<close> once every sender is gone.\<close>

definition receiver_recv :: "'a chan \<Rightarrow> 'a option recv_outcome \<times> 'a chan" where
  "receiver_recv ch =
     (case mpsc_recv ch of
        (Received x, ch') \<Rightarrow> (Received (Some x), ch')
      | (HungUp, ch') \<Rightarrow> (Received None, ch')
      | (Waiting, ch') \<Rightarrow> (Waiting, ch'))"

definition receiver_try_recv :: "'a chan \<Rightarrow> 'a option \<times> 'a chan" where
  "receiver_try_recv ch = mpsc_try_recv ch"

lemma sender_try_send_eq: "sender_try_send x ch = mpsc_try_send x ch"
  by (simp add: sender_try_send_def mpsc_try_send_def)

section \<open>Bounded first-in first-out queues\<close>

datatype 'a chan_op = Send 'a | Recv

locale bounded_fifo =
  fixes put :: "'a \<Rightarrow> 's \<Rightarrow> 's option"
    and get :: "'s \<Rightarrow> ('a \<times> 's) option"
    and items :: "'s \<Rightarrow> 'a list"
    and cap :: "'s \<Rightarrow> nat"
  assumes put_full: "put x s = None \<longleftrightarrow> cap s \<le> length (items s)"
    and put_items: "put x s = Some s' \<Longrightarrow> items s' = items s @ [x] \<and> cap s' = cap s"
    and get_empty: "get s = None \<longleftrightarrow> items s = []"
    and get_items: "get s = Some (x, s') \<Longrightarrow> items s = x # items s' \<and> cap s' = cap s"
begin

text \<open>An interleaving of sends and receives: what was accepted, what was delivered.\<close>

fun interleave :: "'a chan_op list \<Rightarrow> 's \<Rightarrow> 'a list \<times> 'a list \<times> 's" where
  "interleave [] s = ([], [], s)"
| "interleave (Send x # ops) s =
     (case put x s of
        None \<Rightarrow> interleave ops s
      | Some s' \<Rightarrow> (case interleave ops s' of (acc, del, t) \<Rightarrow> (x # acc, del, t)))"
| "interleave (Recv # ops) s =
     (case get s of
        None \<Rightarrow> interleave ops s
      | Some (x, s') \<Rightarrow> (case interleave ops s' of (acc, del, t) \<Rightarrow> (acc, x # del, t)))"

lemma interleave_fifo:
  "interleave ops s = (acc, del, t) \<Longrightarrow>
   items s @ acc = del @ items t \<and> cap t = cap s \<and>
   (length (items s) \<le> cap s \<longrightarrow> length (items t) \<le> cap s)"
proof (induction ops s arbitrary: acc del t rule: interleave.induct)
  case (2 x ops s)
  show ?case
  proof (cases "put x s")
    case None
    with 2(3) have "interleave ops s = (acc, del, t)" by simp
    then show ?thesis by (rule 2(1) [OF None])
  next
    case (Some s')
    obtain acc' where rest: "interleave ops s' = (acc', del, t)" and acc: "acc = x # acc'"
      using 2(3) Some by (auto split: prod.splits)
    have "items s' = items s @ [x]" "cap s' = cap s" using put_items [OF Some] by auto
    moreover have "length (items s) < cap s" using put_full [of x s] Some by simp
    ultimately show ?thesis using 2(2) [OF Some rest] acc by simp
  qed
next
  case (3 ops s)
  show ?case
  proof (cases "get s")
    case None
    with 3(3) have "interleave ops s = (acc, del, t)" by simp
    then show ?thesis by (rule 3(1) [OF None])
  next
    case (Some p)
    then obtain x s' where g: "get s = Some (x, s')" by (cases p) auto
    obtain del' where rest: "interleave ops s' = (acc, del', t)" and del: "del = x # del'"
      using 3(3) g by (auto split: prod.splits)
    have "items s = x # items s'" "cap s' = cap s" using get_items [OF g] by auto
    then show ?thesis using 3(2) [OF g refl rest] del by simp
  qed
qed simp

end

section \<open>The snapshot channel as a bounded queue\<close>

definition chan_put :: "'a \<Rightarrow> 'a chan \<Rightarrow> 'a chan option" where
  "chan_put x ch =
     (case sender_try_send x ch of (Ok _, ch') \<Rightarrow> Some ch' | (Err _, _) \<Rightarrow> None)"

definition chan_get :: "'a chan \<Rightarrow> ('a \<times> 'a chan) option" where
  "chan_get ch = (case receiver_try_recv ch of (Some x, ch') \<Rightarrow> Some (x, ch') | (None, _) \<Rightarrow> None)"

text \<open>A channel whose receiver is gone takes nothing.\<close>

definition chan_room :: "'a chan \<Rightarrow> nat" where
  "chan_room ch = (if ch_receiver ch then ch_capacity ch else 0)"

lemma chan_put_eq:
  "chan_put x ch =
     (if ch_receiver ch \<and> length (ch_queue ch) < ch_capacity ch
      then Some (ch\<lparr>ch_queue := ch_queue ch @ [x]\<rparr>) else None)"
  by (simp add: chan_put_def sender_try_send_eq mpsc_try_send_def)

lemma chan_get_eq:
  "chan_get ch = (case ch_queue ch of [] \<Rightarrow> None | x # xs \<Rightarrow> Some (x, ch\<lparr>ch_queue := xs\<rparr>))"
  by (simp add: chan_get_def receiver_try_recv_def mpsc_try_recv_def split: list.splits)

interpretation snapshots: bounded_fifo chan_put chan_get ch_queue chan_room
  by unfold_locales
    (auto simp: chan_put_eq chan_get_eq chan_room_def split: if_splits list.splits)

section \<open>Properties\<close>

text \<open>
  Whatever the interleaving of sends and receives on a new snapshot channel, the receiver
  gets the accepted snapshots in the order they were sent, none twice and none invented; what
  is accepted and not yet received is still queued; and the queue never holds more than the
  clamped capacity, which is at least one.
\<close>

theorem snapshot_channel_fifo:
  "case snapshots.interleave ops (snapshot_channel n) of
     (accepted, delivered, ch) \<Rightarrow>
       accepted = delivered @ ch_queue ch \<and> length (ch_queue ch) \<le> max 1 n"
proof -
  obtain acc del ch where run: "snapshots.interleave ops (snapshot_channel n) = (acc, del, ch)"
    by (metis prod_cases3)
  have new: "ch_queue (snapshot_channel n) = []" "chan_room (snapshot_channel n) = max 1 n"
    by (auto simp: snapshot_channel_def sync_channel_def chan_room_def)
  show ?thesis
    using snapshots.interleave_fifo [OF run] unfolding run new by simp
qed

end
