(* ===== verification/Poller.thy ===== *)
theory Poller
  imports VapiClient Backoff Channel "HOL-Library.AList"
begin

text \<open>
  The poller thread, \<open>src/frontend/src/poller.rs\<close>: how a raw snapshot becomes a decoded one,
  and the tick loop with its reconnects, its fan-out to the exporters, its service of pull
  requests and its interruptible sleep. One turn of the loop is a function of the loop's
  local variables and of what the outside world answers during the turn; it returns the new
  variables and what the turn did.
\<close>

section \<open>Decoding a snapshot\<close>

record merged_slot =
  mg_packets :: u64
  mg_bytes :: u64
  mg_last_update :: u64

text \<open>The bytes of a slot's key, unless the slot is to be skipped.\<close>

definition slot_key :: "raw_descriptor \<Rightarrow> raw_slot \<Rightarrow> u8 list option" where
  "slot_key desc slot =
     (if sl_key_len slot = 0 then None
      else let start = unat (sl_key_offset slot); stop = start + unat (sl_key_len slot)
           in if length (de_key_arena desc) < stop then None
              else Some (take (stop - start) (drop start (de_key_arena desc))))"

definition merged_start :: "raw_slot \<Rightarrow> merged_slot" where
  "merged_start slot =
     \<lparr> mg_packets = sl_packets slot, mg_bytes = sl_bytes slot, mg_last_update = sl_last_update slot \<rparr>"

definition merged_bump :: "merged_slot \<Rightarrow> raw_slot \<Rightarrow> merged_slot" where
  "merged_bump m slot =
     m\<lparr> mg_packets := sat_add (mg_packets m) (sl_packets slot),
        mg_bytes := sat_add (mg_bytes m) (sl_bytes slot),
        mg_last_update := max (mg_last_update m) (sl_last_update slot) \<rparr>"

text \<open>
  The hash map of merged slots is its list of entries; \<open>entry().and_modify().or_insert()\<close> is
  \<open>AList.map_default\<close>.
\<close>

type_synonym slot_table = "(u8 list \<times> merged_slot) list"

definition table_step :: "u8 list \<times> raw_slot \<Rightarrow> slot_table \<Rightarrow> slot_table" where
  "table_step ks merged =
     (case ks of (key_bytes, slot) \<Rightarrow>
        AList.map_default key_bytes (merged_start slot) (\<lambda>m. merged_bump m slot) merged)"

definition merge_slot :: "raw_descriptor \<Rightarrow> raw_slot \<Rightarrow> slot_table \<Rightarrow> slot_table" where
  "merge_slot desc slot merged =
     (case slot_key desc slot of None \<Rightarrow> merged | Some key_bytes \<Rightarrow> table_step (key_bytes, slot) merged)"

definition merge_slots :: "raw_descriptor \<Rightarrow> slot_table" where
  "merge_slots desc = fold (merge_slot desc) (de_slots desc) []"

definition to_flow :: "field_id list \<Rightarrow> u8 list \<times> merged_slot \<Rightarrow> flow_stats option" where
  "to_flow flds km =
     (case km of (key_bytes, m) \<Rightarrow>
        (case decode_key flds key_bytes of
           Err _ \<Rightarrow> None
         | Ok key \<Rightarrow>
             Some \<lparr> fl_key = key,
                    fl_counters = \<lparr> ctr_packets = mg_packets m, ctr_bytes = mg_bytes m,
                                    ctr_first_seen_ns = 0, ctr_last_seen_ns = mg_last_update m \<rparr> \<rparr>))"

text \<open>
  A hash map is iterated in an arbitrary order: here the order of a rank of the keys, which is
  a parameter. Every order of the entries is the order of some rank.
\<close>

definition iterate :: "(u8 list \<Rightarrow> nat) \<Rightarrow> slot_table \<Rightarrow> slot_table" where
  "iterate rank merged = sort_key (rank \<circ> fst) merged"

definition decode_flows :: "(u8 list \<Rightarrow> nat) \<Rightarrow> field_id list \<Rightarrow> raw_descriptor \<Rightarrow> flow_stats list" where
  "decode_flows rank flds desc = List.map_filter (to_flow flds) (iterate rank (merge_slots desc))"

definition decode_descriptor :: "(u8 list \<Rightarrow> nat) \<Rightarrow> raw_descriptor \<Rightarrow> flow_rule_stats" where
  "decode_descriptor rank desc =
     (let flds = [] :: field_id list
      in \<lparr> rs_name = display_id (de_flow_rule_id desc),
           rs_fields = flds,
           rs_max_keys = - 1,
           rs_eviction_policy = LruDrop,
           rs_flows = decode_flows rank flds desc,
           rs_counters = \<lparr> rc_evictions = 0, rc_drops = de_insert_failed desc,
                           rc_packets = 0, rc_bytes = 0 \<rparr> \<rparr>)"

definition decode_snapshot ::
    "(u8 list \<Rightarrow> nat) \<Rightarrow> raw_snapshot \<Rightarrow> u64 \<Rightarrow> u64 \<Rightarrow> u64 \<Rightarrow> u64 \<Rightarrow> flow_stats_snapshot" where
  "decode_snapshot rank raw tick_id wall mono_ns prev_mono =
     \<lparr> sn_tick_id = tick_id,
       sn_wall_clock_ns = wall,
       sn_monotonic_ns = mono_ns,
       sn_interval_ns = (if tick_id = 1 \<or> prev_mono = 0 then 0 else sat_sub mono_ns prev_mono),
       sn_flow_rules = map (decode_descriptor rank) (raw_descriptors raw) \<rparr>"

section \<open>The table of merged slots\<close>

lemma map_default_upsert: "AList.map_default k v f al = upsert k f v al"
  by (induction al) auto

text \<open>The records the loop keeps: the slots with a usable key, each with that key.\<close>

definition keyed_slots :: "raw_descriptor \<Rightarrow> (u8 list \<times> raw_slot) list" where
  "keyed_slots desc =
     List.map_filter (\<lambda>s. map_option (\<lambda>k. (k, s)) (slot_key desc s)) (de_slots desc)"

lemma fold_merge_slot:
  "fold (merge_slot desc) slots t =
   fold table_step (List.map_filter (\<lambda>s. map_option (\<lambda>k. (k, s)) (slot_key desc s)) slots) t"
  by (induction slots arbitrary: t)
    (auto simp: merge_slot_def List.map_filter_def split: option.splits)

lemma merge_slots_keyed: "merge_slots desc = fold table_step (keyed_slots desc) []"
  by (simp add: merge_slots_def keyed_slots_def fold_merge_slot)

interpretation slot_merge: keyed_merge fst "\<lambda>ks. merged_start (snd ks)"
  "\<lambda>m ks. merged_bump m (snd ks)" "[]" table_step "\<lambda>t. t" "\<lambda>_. True"
  by unfold_locales (auto simp: table_step_def map_default_upsert split: prod.splits)

lemma merge_slots_groups: "merge_slots desc = slot_merge.groups (keyed_slots desc)"
  using slot_merge.fold_groups [of "keyed_slots desc"] by (simp only: merge_slots_keyed)

lemma merge_slots_keys: "map fst (merge_slots desc) = first_keys (map fst (keyed_slots desc))"
  by (simp only: merge_slots_groups slot_merge.groups_keys)

lemma merge_slots_member:
  assumes "(k, m) \<in> set (merge_slots desc)"
  defines "g \<equiv> map snd (filter (\<lambda>ks. fst ks = k) (keyed_slots desc))"
  shows "unat (mg_packets m) = sat_total (map sl_packets g)"
    and "unat (mg_bytes m) = sat_total (map sl_bytes g)"
    and "mg_last_update m = Max (set (map sl_last_update g))"
    and "g \<noteq> []"
proof -
  let ?g = "filter (\<lambda>ks. fst ks = k) (keyed_slots desc)"
  have m: "m = slot_merge.combine ?g" and ne: "?g \<noteq> []"
    using slot_merge.groups_member assms(1) unfolding merge_slots_groups by blast+
  have "mg_packets m = foldl sat_add (sl_packets (snd (hd ?g))) (map (sl_packets \<circ> snd) (tl ?g))"
    unfolding m o_def using ne
    by (intro slot_merge.combine_measure) (auto simp: merged_bump_def merged_start_def)
  moreover have "mg_bytes m = foldl sat_add (sl_bytes (snd (hd ?g))) (map (sl_bytes \<circ> snd) (tl ?g))"
    unfolding m o_def using ne
    by (intro slot_merge.combine_measure) (auto simp: merged_bump_def merged_start_def)
  moreover have "mg_last_update m =
      foldl max (sl_last_update (snd (hd ?g))) (map (sl_last_update \<circ> snd) (tl ?g))"
    unfolding m o_def using ne
    by (intro slot_merge.combine_measure) (auto simp: merged_bump_def merged_start_def)
  ultimately show "unat (mg_packets m) = sat_total (map sl_packets g)"
      "unat (mg_bytes m) = sat_total (map sl_bytes g)"
      "mg_last_update m = Max (set (map sl_last_update g))"
    using ne sat_total_foldl [of "map sl_packets g"] sat_total_foldl [of "map sl_bytes g"]
      foldl_max_Max [of "map sl_last_update g"]
    by (simp_all add: g_def hd_map map_tl)
  show "g \<noteq> []" using ne by (simp add: g_def)
qed

section \<open>Reading back what the client packed\<close>

text \<open>The part of a slot the merge reads.\<close>

definition slot_data :: "raw_slot \<Rightarrow> u64 \<times> u64 \<times> u64" where
  "slot_data s = (sl_packets s, sl_bytes s, sl_last_update s)"

definition entry_data :: "collected_entry \<Rightarrow> u64 \<times> u64 \<times> u64" where
  "entry_data e = (ce_packets e, ce_bytes e, ce_last_update e)"

lemma keyed_slots_from:
  assumes "de_key_arena desc = pre @ concat (map ce_key_bytes es)"
    and "length (de_key_arena desc) < 2 ^ 32"
    and "\<forall>e \<in> set es. length (ce_key_bytes e) < 2 ^ 16"
  shows "map (\<lambda>ks. (fst ks, slot_data (snd ks)))
      (List.map_filter (\<lambda>s. map_option (\<lambda>k. (k, s)) (slot_key desc s)) (slots_from (length pre) es)) =
    map (\<lambda>e. (ce_key_bytes e, entry_data e)) (filter (\<lambda>e. ce_key_bytes e \<noteq> []) es)"
  using assms(1,3)
proof (induction es arbitrary: pre)
  case Nil
  then show ?case by (simp add: List.map_filter_def)
next
  case (Cons e es)
  let ?k = "ce_key_bytes e"
  have len: "length pre + length ?k < 2 ^ 32" "length ?k < 2 ^ 16"
    using assms(2) Cons.prems by auto
  obtain s where
      split: "slots_from (length pre) (e # es) = s # slots_from (length (pre @ ?k)) es"
      and offs: "sl_key_offset s = word_of_nat (length pre)" "sl_key_len s = word_of_nat (length ?k)"
      and data: "slot_data s = entry_data e"
    by (simp add: slot_data_def entry_data_def)
  have unats: "unat (sl_key_offset s) = length pre" "unat (sl_key_len s) = length ?k"
    using len by (simp_all add: offs unat_of_nat take_bit_eq_mod)
  have zero: "sl_key_len s = 0 \<longleftrightarrow> ?k = []"
    using unats(2) by (metis length_0_conv unat_eq_zero)
  have key: "slot_key desc s = (if ?k = [] then None else Some ?k)"
    using zero unats Cons.prems(1) by (simp add: slot_key_def Let_def)
  have ih: "map (\<lambda>ks. (fst ks, slot_data (snd ks)))
      (List.map_filter (\<lambda>s. map_option (\<lambda>k. (k, s)) (slot_key desc s))
        (slots_from (length (pre @ ?k)) es)) =
    map (\<lambda>e. (ce_key_bytes e, entry_data e)) (filter (\<lambda>e. ce_key_bytes e \<noteq> []) es)"
    using Cons.prems by (intro Cons.IH) auto
  show ?case
    unfolding split List.map_filter_simps using ih
    by (cases "?k = []") (simp_all add: key data del: length_append)
qed

definition packed :: "flow_rule_id \<Rightarrow> ffi_flow_entry list \<Rightarrow> raw_descriptor" where
  "packed frid streamed = build_descriptor frid (map entry_cb streamed)"

definition arena_fits :: "ffi_flow_entry list \<Rightarrow> bool" where
  "arena_fits streamed \<longleftrightarrow>
     length (concat (map ce_key_bytes (merge_worker_entries (map entry_cb streamed)))) < 2 ^ 32"

lemma merged_key_length:
  assumes "m \<in> set (merge_worker_entries (map entry_cb streamed))"
  shows "length (ce_key_bytes m) < 2 ^ 16"
proof -
  have "entry_identity m \<in> set (map entry_identity (merge_worker_entries (map entry_cb streamed)))"
    using assms by simp
  then have "entry_identity m \<in> entry_identity ` set (map entry_cb streamed)"
    unfolding merge_worker_identities set_first_keys set_map .
  then obtain e where "ce_key_bytes m = ce_key_bytes (entry_cb e)"
    by (auto simp: entry_identity_def)
  then show ?thesis using entry_cb_key_length [of e] by simp
qed

lemma packed_keyed_slots:
  assumes "arena_fits streamed"
  shows "map (\<lambda>ks. (fst ks, slot_data (snd ks))) (keyed_slots (packed frid streamed)) =
    map (\<lambda>e. (ce_key_bytes e, entry_data e))
      (filter (\<lambda>e. ce_key_bytes e \<noteq> []) (merge_worker_entries (map entry_cb streamed)))"
proof -
  have d: "de_key_arena (packed frid streamed) =
        [] @ concat (map ce_key_bytes (merge_worker_entries (map entry_cb streamed)))"
      "de_slots (packed frid streamed) =
        slots_from (length ([] :: u8 list)) (merge_worker_entries (map entry_cb streamed))"
    by (simp_all add: packed_def build_descriptor_def Let_def pack_slots_eq)
  show ?thesis
    unfolding keyed_slots_def d(2)
    by (rule keyed_slots_from [OF d(1)])
      (use assms d merged_key_length in \<open>auto simp: arena_fits_def\<close>)
qed

section \<open>Two merges add up\<close>

lemma merged_totals:
  fixes es :: "collected_entry list" and k :: "u8 list"
  defines "ms \<equiv> filter (\<lambda>m. ce_key_bytes m = k) (merge_worker_entries es)"
    and "ek \<equiv> filter (\<lambda>e. ce_key_bytes e = k) es"
  shows "ms = [] \<longleftrightarrow> ek = []"
    and "sat_total (map ce_packets ms) = sat_total (map ce_packets ek)"
    and "sat_total (map ce_bytes ms) = sat_total (map ce_bytes ek)"
    and "ek \<noteq> [] \<Longrightarrow> Max (set (map ce_last_update ms)) = Max (set (map ce_last_update ek))"
proof -
  define grp where "grp m = filter (\<lambda>e. entry_identity e = entry_identity m) es" for m
  have mem: "summarises m (grp m)" "grp m \<noteq> []" if "m \<in> set ms" for m
  proof -
    have m: "m \<in> set (merge_worker_entries es)" using that by (simp add: ms_def)
    show "grp m \<noteq> []" unfolding grp_def by (rule merge_worker_member(2) [OF m])
    then show "summarises m (grp m)"
      using combine_summarises merge_worker_member(1) [OF m] unfolding grp_def by metis
  qed
  have ident: "set (map entry_identity (merge_worker_entries es)) = set (map entry_identity es)"
      "distinct (map entry_identity (merge_worker_entries es))"
    unfolding merge_worker_identities by simp_all
  have grp_ek: "grp m = filter (\<lambda>e. entry_identity e = entry_identity m) ek" if "m \<in> set ms" for m
    using that by (auto simp: grp_def ek_def ms_def entry_identity_def intro!: filter_cong)
  have cover: "entry_identity e \<in> set (map entry_identity ms)" if "e \<in> set ek" for e
  proof -
    have "entry_identity e \<in> set (map entry_identity (merge_worker_entries es))"
      unfolding ident using that by (auto simp: ek_def)
    then show ?thesis using that by (auto simp: ek_def ms_def entry_identity_def)
  qed
  have dist: "distinct (map entry_identity ms)"
    unfolding ms_def by (rule distinct_map_filter [OF ident(2)])
  show empty: "ms = [] \<longleftrightarrow> ek = []"
  proof
    assume "ms = []" then show "ek = []" using cover by (cases ek) auto
  next
    assume "ek = []" then show "ms = []" using mem grp_ek by (cases ms) auto
  qed
  have sums: "sat_total (map f ms) = sat_total (map f ek)"
    if f: "\<And>m. m \<in> set ms \<Longrightarrow> unat (f m) = sat_total (map f (grp m))" for f :: "collected_entry \<Rightarrow> u64"
  proof -
    let ?S = "\<lambda>k. sum_list (map (unat \<circ> f) (filter (\<lambda>e. entry_identity e = k) ek))"
    have "map (unat \<circ> f) ms = map (\<lambda>m. min (2 ^ 64 - 1) (?S (entry_identity m))) ms"
      using f grp_ek by (auto simp: sat_total_def o_def)
    then have "sat_total (map f ms) = min (2 ^ 64 - 1) (sum_list (map (\<lambda>m. ?S (entry_identity m)) ms))"
      by (simp only: sat_total_def list.map_comp min_sum_min)
    also have "map (\<lambda>m. ?S (entry_identity m)) ms = map ?S (map entry_identity ms)" by simp
    also have "sum_list (map ?S (map entry_identity ms)) = sum_list (map (unat \<circ> f) ek)"
      using cover by (intro sum_over_groups dist) auto
    finally show ?thesis by (simp add: sat_total_def)
  qed
  show "sat_total (map ce_packets ms) = sat_total (map ce_packets ek)"
      "sat_total (map ce_bytes ms) = sat_total (map ce_bytes ek)"
    using mem by (auto intro!: sums simp: summarises_def)
  assume ne: "ek \<noteq> []"
  have "set ek = (\<Union>m \<in> set ms. set (grp m))"
    using cover grp_ek by (fastforce simp: ek_def)
  then show "Max (set (map ce_last_update ms)) = Max (set (map ce_last_update ek))"
    using ne empty mem by (intro Max_over_groups [of ms grp]) (auto simp: summarises_def)
qed

lemma packed_slots_of_key:
  assumes "arena_fits streamed" "k \<noteq> []"
  shows "map slot_data (map snd (filter (\<lambda>ks. fst ks = k) (keyed_slots (packed frid streamed)))) =
    map entry_data (filter (\<lambda>m. ce_key_bytes m = k) (merge_worker_entries (map entry_cb streamed)))"
proof -
  let ?f = "\<lambda>ks. (fst ks, slot_data (snd ks))"
  let ?M = "merge_worker_entries (map entry_cb streamed)"
  have "map ?f (filter (\<lambda>ks. fst ks = k) (keyed_slots (packed frid streamed))) =
      filter (\<lambda>p. fst p = k) (map ?f (keyed_slots (packed frid streamed)))"
    by (simp add: filter_map o_def)
  also have "\<dots> = map (\<lambda>e. (ce_key_bytes e, entry_data e)) (filter (\<lambda>m. ce_key_bytes m = k) ?M)"
    using assms(2) unfolding packed_keyed_slots [OF assms(1)]
    by (auto simp: filter_map o_def intro!: filter_cong arg_cong [where f = "map _"])
  finally have "map snd (map ?f (filter (\<lambda>ks. fst ks = k) (keyed_slots (packed frid streamed)))) =
      map snd (map (\<lambda>e. (ce_key_bytes e, entry_data e)) (filter (\<lambda>m. ce_key_bytes m = k) ?M))"
    by (rule arg_cong)
  then show ?thesis by (simp add: o_def)
qed

section \<open>What a decoded rule reports\<close>

lemma slot_key_nonempty: "slot_key desc s = Some k \<Longrightarrow> k \<noteq> []"
  using unat_gt_0 [of "sl_key_len s"] by (auto simp: slot_key_def Let_def split: if_splits)

lemma merge_slots_nonempty: "(k, m) \<in> set (merge_slots desc) \<Longrightarrow> k \<noteq> []"
proof -
  assume "(k, m) \<in> set (merge_slots desc)"
  then have "k \<in> set (map fst (merge_slots desc))" by force
  then have "k \<in> set (map fst (keyed_slots desc))" by (simp only: merge_slots_keys set_first_keys)
  then show ?thesis
    by (auto simp: keyed_slots_def List.map_filter_def slot_key_nonempty)
qed

lemma map_filter_set: "y \<in> set (List.map_filter f xs) \<longleftrightarrow> (\<exists>x \<in> set xs. f x = Some y)"
  by (force simp: List.map_filter_def)

lemma decode_flows_iff:
  "fl \<in> set (decode_flows rank flds desc) \<longleftrightarrow>
   (\<exists>k m. (k, m) \<in> set (merge_slots desc) \<and> to_flow flds (k, m) = Some fl)"
  by (auto simp: decode_flows_def iterate_def map_filter_set)

lemma to_flow_Some:
  "to_flow flds (k, m) = Some fl \<longleftrightarrow>
   decode_key flds k = Ok (fl_key fl) \<and>
   fl_counters fl = \<lparr> ctr_packets = mg_packets m, ctr_bytes = mg_bytes m,
     ctr_first_seen_ns = 0, ctr_last_seen_ns = mg_last_update m \<rparr>"
  by (cases fl) (auto simp: to_flow_def split: sum.splits)

definition key_of :: "flow_stats \<Rightarrow> u8 list" where
  "key_of fl = concat (map encode_value (fl_key fl))"

text \<open>A flow reports the entries of its key: their saturating totals and their latest update.\<close>

definition reports :: "field_id list \<Rightarrow> collected_entry list \<Rightarrow> flow_stats \<Rightarrow> bool" where
  "reports flds es fl \<longleftrightarrow>
     (let g = filter (\<lambda>e. ce_key_bytes e = key_of fl) es
      in g \<noteq> [] \<and> key_of fl \<noteq> [] \<and> list_all2 value_fits flds (fl_key fl) \<and>
         unat (ctr_packets (fl_counters fl)) = sat_total (map ce_packets g) \<and>
         unat (ctr_bytes (fl_counters fl)) = sat_total (map ce_bytes g) \<and>
         ctr_first_seen_ns (fl_counters fl) = 0 \<and>
         ctr_last_seen_ns (fl_counters fl) = Max (set (map ce_last_update g)))"

lemma packed_merge_member:
  assumes "arena_fits streamed" "(k, m) \<in> set (merge_slots (packed frid streamed))"
  defines "g \<equiv> filter (\<lambda>e. ce_key_bytes e = k) (map entry_cb streamed)"
  shows "g \<noteq> []" "unat (mg_packets m) = sat_total (map ce_packets g)"
    "unat (mg_bytes m) = sat_total (map ce_bytes g)"
    "mg_last_update m = Max (set (map ce_last_update g))"
proof -
  let ?g = "map snd (filter (\<lambda>ks. fst ks = k) (keyed_slots (packed frid streamed)))"
  let ?ms = "filter (\<lambda>m. ce_key_bytes m = k) (merge_worker_entries (map entry_cb streamed))"
  have data: "map slot_data ?g = map entry_data ?ms"
    using assms(1) merge_slots_nonempty [OF assms(2)] by (rule packed_slots_of_key)
  have parts: "map sl_packets ?g = map ce_packets ?ms" "map sl_bytes ?g = map ce_bytes ?ms"
      "map sl_last_update ?g = map ce_last_update ?ms"
    using arg_cong [OF data, of "map fst"] arg_cong [OF data, of "map (fst \<circ> snd)"]
      arg_cong [OF data, of "map (snd \<circ> snd)"]
    by (simp_all add: slot_data_def entry_data_def o_def)
  note mem = merge_slots_member [OF assms(2)]
  have "?ms \<noteq> []" using mem(4) parts(1) by (metis map_is_Nil_conv)
  then show ne: "g \<noteq> []" using merged_totals(1) unfolding g_def by blast
  show "unat (mg_packets m) = sat_total (map ce_packets g)"
      "unat (mg_bytes m) = sat_total (map ce_bytes g)"
      "mg_last_update m = Max (set (map ce_last_update g))"
    using mem(1-3) merged_totals(4) [OF ne [unfolded g_def]] unfolding parts g_def
    by (simp_all only: merged_totals(2,3))
qed

lemma packed_merge_key:
  assumes "arena_fits streamed" "k \<noteq> []"
    "filter (\<lambda>e. ce_key_bytes e = k) (map entry_cb streamed) \<noteq> []"
  shows "\<exists>m. (k, m) \<in> set (merge_slots (packed frid streamed))"
proof -
  have "filter (\<lambda>m. ce_key_bytes m = k) (merge_worker_entries (map entry_cb streamed)) \<noteq> []"
    using assms(3) by (simp only: merged_totals(1) not_False_eq_True)
  then have "filter (\<lambda>ks. fst ks = k) (keyed_slots (packed frid streamed)) \<noteq> []"
    using packed_slots_of_key [OF assms(1,2), of frid] by (metis map_is_Nil_conv)
  then have "k \<in> set (map fst (keyed_slots (packed frid streamed)))"
    by (auto simp: filter_empty_conv)
  then have "k \<in> set (map fst (merge_slots (packed frid streamed)))"
    by (simp only: merge_slots_keys set_first_keys)
  then show ?thesis by auto
qed

lemma decode_flows_reports:
  assumes "arena_fits streamed"
  shows "fl \<in> set (decode_flows rank flds (packed frid streamed)) \<longleftrightarrow>
    reports flds (map entry_cb streamed) fl"
proof
  assume "fl \<in> set (decode_flows rank flds (packed frid streamed))"
  then obtain k m where km: "(k, m) \<in> set (merge_slots (packed frid streamed))"
      and fl: "to_flow flds (k, m) = Some fl"
    unfolding decode_flows_iff by blast
  then have "list_all2 value_fits flds (fl_key fl)" "k = key_of fl"
    by (auto simp: to_flow_Some decode_key_iff key_of_def)
  then show "reports flds (map entry_cb streamed) fl"
    using packed_merge_member [OF assms km] merge_slots_nonempty [OF km] fl
    by (simp add: reports_def Let_def to_flow_Some)
next
  assume r: "reports flds (map entry_cb streamed) fl"
  let ?g = "filter (\<lambda>e. ce_key_bytes e = key_of fl) (map entry_cb streamed)"
  have ne: "key_of fl \<noteq> []" "?g \<noteq> []" using r by (simp_all add: reports_def Let_def)
  obtain m where km: "(key_of fl, m) \<in> set (merge_slots (packed frid streamed))"
    using packed_merge_key [OF assms ne] by blast
  note mem = packed_merge_member [OF assms km]
  have "ctr_packets (fl_counters fl) = mg_packets m" "ctr_bytes (fl_counters fl) = mg_bytes m"
    using r mem by (simp_all add: reports_def Let_def word_unat_eq_iff)
  then have "fl_counters fl = \<lparr> ctr_packets = mg_packets m, ctr_bytes = mg_bytes m,
      ctr_first_seen_ns = 0, ctr_last_seen_ns = mg_last_update m \<rparr>"
    using r mem by (cases "fl_counters fl") (simp add: reports_def Let_def)
  moreover have "decode_key flds (key_of fl) = Ok (fl_key fl)"
    using r by (simp add: reports_def Let_def decode_key_iff key_of_def)
  ultimately show "fl \<in> set (decode_flows rank flds (packed frid streamed))"
    unfolding decode_flows_iff using km by (auto simp: to_flow_Some)
qed

lemma decode_flows_distinct: "distinct (map fl_key (decode_flows rank flds desc))"
proof -
  have d: "distinct (map fst (iterate rank (merge_slots desc)))"
  proof -
    have "distinct (map fst (merge_slots desc))" by (simp only: merge_slots_keys distinct_first_keys)
    then show ?thesis by (simp add: iterate_def distinct_map)
  qed
  have "distinct (map fl_key (List.map_filter (to_flow flds) t))" if "distinct (map fst t)" for t
    using that
  proof (induction t)
    case (Cons km t)
    obtain k m where km: "km = (k, m)" by (cases km)
    have "fl_key fl \<notin> set (map fl_key (List.map_filter (to_flow flds) t))"
      if fl: "to_flow flds (k, m) = Some fl" for fl
    proof
      assume "fl_key fl \<in> set (map fl_key (List.map_filter (to_flow flds) t))"
      then obtain k' m' fl' where "(k', m') \<in> set t" "to_flow flds (k', m') = Some fl'"
          "fl_key fl' = fl_key fl"
        by (auto simp: map_filter_set)
      then have "k' = k" "k' \<in> fst ` set t"
        using fl by (auto simp: to_flow_Some decode_key_iff) force
      then show False using Cons.prems by (simp add: km)
    qed
    then show ?case
      using Cons by (auto simp: km List.map_filter_simps split: option.splits)
  qed (simp add: List.map_filter_simps)
  from this [OF d] show ?thesis by (simp only: decode_flows_def)
qed

lemma decode_flows_no_fields: "decode_flows rank [] desc = []"
proof -
  have "fl \<notin> set (decode_flows rank [] desc)" for fl
    using merge_slots_nonempty by (auto simp: decode_flows_iff to_flow_Some decode_key_iff)
  then show ?thesis by (metis list.set_intros(1) neq_Nil_conv)
qed

end
