(* ===== verification/PollLoop.thy ===== *)
theory PollLoop
  imports Poller
begin

text \<open>
  The tick loop of \<open>src/frontend/src/poller.rs\<close>: the interruptible sleep, one turn of the loop
  as a function of its local variables and of the world's answers during the turn, and the
  run over a sequence of turns. The thread's stop flag is read at the head of the loop, so a
  run is the turns taken before it was seen set.
\<close>

section \<open>The interruptible sleep\<close>

definition CHECK :: duration where
  "CHECK = from_millis 50"

text \<open>\<open>stop i\<close> is the answer of the \<open>i\<close>-th look at the flag; the result is the time slept.\<close>

function sleep_from :: "(nat \<Rightarrow> bool) \<Rightarrow> nat \<Rightarrow> duration \<Rightarrow> duration" where
  "sleep_from stop i remaining =
     (if \<not> Nanos 0 < remaining then Nanos 0
      else if stop i then Nanos 0
      else let sleep_time = min remaining CHECK
           in Nanos (as_nanos sleep_time +
                as_nanos (sleep_from stop (Suc i) (dur_saturating_sub remaining sleep_time))))"
  by pat_completeness auto
termination
  by (relation "measure (\<lambda>(stop, i, remaining). as_nanos remaining)")
    (auto simp: duration_simps CHECK_def dur_saturating_sub_def as_nanos_min min_def)

declare sleep_from.simps [simp del]

definition sleep_interruptible :: "duration \<Rightarrow> (nat \<Rightarrow> bool) \<Rightarrow> duration" where
  "sleep_interruptible dur stop = sleep_from stop 0 dur"

section \<open>One turn of the loop\<close>

record poller_config =
  pc_stats_socket :: string
  pc_interval :: duration

definition default_poller_config :: poller_config where
  "default_poller_config =
     \<lparr> pc_stats_socket = ''/run/vpp/api.sock'', pc_interval = from_millis 1000 \<rparr>"

definition INITIAL_BACKOFF :: duration where
  "INITIAL_BACKOFF = from_millis 100"

definition MAX_BACKOFF :: duration where
  "MAX_BACKOFF = from_secs 5"

record loop_vars =
  lv_client :: bool
  lv_tick_id :: u64
  lv_prev_mono :: u64
  lv_backoff :: duration
  lv_senders :: "flow_stats_snapshot chan list"

definition loop_start :: "flow_stats_snapshot chan list \<Rightarrow> loop_vars" where
  "loop_start senders =
     \<lparr> lv_client = False, lv_tick_id = 0, lv_prev_mono = 0, lv_backoff = INITIAL_BACKOFF,
       lv_senders = senders \<rparr>"

text \<open>
  The world during one turn: the monotonic clock at both ends, whether connecting succeeds,
  what the two snapshot calls answer and the clocks read after them, the pull requests that
  are pending, and the order in which hash maps are iterated.
\<close>

record turn_world =
  tw_tick_start :: u64
  tw_connect :: bool
  tw_rank :: "u8 list \<Rightarrow> nat"
  tw_snapshot :: "vapi_error + raw_snapshot"
  tw_wall :: u64
  tw_mono :: u64
  tw_pulls :: "nat list"
  tw_pull_snapshot :: "vapi_error + raw_snapshot"
  tw_pull_wall :: u64
  tw_pull_mono :: u64
  tw_tick_end :: u64

text \<open>What a turn does to the outside: snapshots published, replies to pulls, the sleep.\<close>

record turn_effects =
  fx_published :: "flow_stats_snapshot list"
  fx_replies :: "(nat \<times> flow_stats_snapshot) list"
  fx_sleeps :: "duration list"

definition fan_out :: "'a \<Rightarrow> 'a chan list \<Rightarrow> 'a chan list" where
  "fan_out snap senders = map (\<lambda>tx. snd (mpsc_try_send snap tx)) senders"

definition publish ::
    "(u8 list \<Rightarrow> nat) \<Rightarrow> raw_snapshot \<Rightarrow> u64 \<Rightarrow> u64 \<Rightarrow> loop_vars \<Rightarrow> flow_stats_snapshot \<times> loop_vars" where
  "publish rank raw wall mono_ns lv =
     (let tick_id = lv_tick_id lv + 1;
          snapshot = decode_snapshot rank raw tick_id wall mono_ns (lv_prev_mono lv)
      in (snapshot, lv\<lparr> lv_tick_id := tick_id, lv_prev_mono := mono_ns,
                        lv_senders := fan_out snapshot (lv_senders lv) \<rparr>))"

definition serve_pulls :: "turn_world \<Rightarrow> loop_vars \<Rightarrow> loop_vars \<times> turn_effects" where
  "serve_pulls w lv =
     (if tw_pulls w \<noteq> [] \<and> lv_client lv then
        (case tw_pull_snapshot w of
           Ok raw \<Rightarrow>
             (case publish (tw_rank w) raw (tw_pull_wall w) (tw_pull_mono w) lv of
                (snap, lv') \<Rightarrow>
                  (lv', \<lparr> fx_published = [snap], fx_replies = map (\<lambda>p. (p, snap)) (tw_pulls w),
                          fx_sleeps = [] \<rparr>))
         | Err _ \<Rightarrow> (lv, \<lparr> fx_published = [], fx_replies = [], fx_sleeps = [] \<rparr>))
      else (lv, \<lparr> fx_published = [], fx_replies = [], fx_sleeps = [] \<rparr>))"

definition tick_sleep :: "poller_config \<Rightarrow> turn_world \<Rightarrow> duration list" where
  "tick_sleep cfg w =
     (let elapsed = Nanos (unat (sat_sub (tw_tick_end w) (tw_tick_start w)))
      in case dur_checked_sub (pc_interval cfg) elapsed of
           Some remaining \<Rightarrow> [remaining]
         | None \<Rightarrow> [])"

definition connected_turn :: "poller_config \<Rightarrow> turn_world \<Rightarrow> loop_vars \<Rightarrow> loop_vars \<times> turn_effects" where
  "connected_turn cfg w lv =
     (case tw_snapshot w of
        Err _ \<Rightarrow> (lv\<lparr>lv_client := False\<rparr>, \<lparr> fx_published = [], fx_replies = [], fx_sleeps = [] \<rparr>)
      | Ok raw \<Rightarrow>
          (case publish (tw_rank w) raw (tw_wall w) (tw_mono w) lv of
             (snap, lv1) \<Rightarrow>
               (case serve_pulls w lv1 of
                  (lv2, fx) \<Rightarrow>
                    (lv2, \<lparr> fx_published = snap # fx_published fx, fx_replies = fx_replies fx,
                            fx_sleeps = tick_sleep cfg w \<rparr>))))"

definition turn :: "poller_config \<Rightarrow> turn_world \<Rightarrow> loop_vars \<Rightarrow> loop_vars \<times> turn_effects" where
  "turn cfg w lv =
     (if \<not> lv_client lv then
        if \<not> tw_connect w then
          (lv\<lparr>lv_backoff := min (dur_mul (lv_backoff lv) 2) MAX_BACKOFF\<rparr>,
           \<lparr> fx_published = [], fx_replies = [], fx_sleeps = [lv_backoff lv] \<rparr>)
        else connected_turn cfg w
               (lv\<lparr>lv_client := True, lv_backoff := INITIAL_BACKOFF, lv_prev_mono := 0\<rparr>)
      else connected_turn cfg w lv)"

fun run_loop :: "poller_config \<Rightarrow> turn_world list \<Rightarrow> loop_vars \<Rightarrow> loop_vars \<times> turn_effects list" where
  "run_loop cfg [] lv = (lv, [])"
| "run_loop cfg (w # ws) lv =
     (case turn cfg w lv of
        (lv1, fx) \<Rightarrow> (case run_loop cfg ws lv1 of (lv2, fxs) \<Rightarrow> (lv2, fx # fxs)))"

definition published :: "turn_effects list \<Rightarrow> flow_stats_snapshot list" where
  "published fxs = concat (map fx_published fxs)"

definition sleeps :: "turn_effects list \<Rightarrow> duration list" where
  "sleeps fxs = concat (map fx_sleeps fxs)"

section \<open>The sleep is exact\<close>

lemma check_pos: "0 < as_nanos CHECK"
  by (simp add: CHECK_def from_millis_def)

lemma sleep_arith: "min a c + min (a - min a c) y = min a (c + (y::nat))"
  by (auto simp: min_def)

lemma sleep_until:
  "(\<forall>j. i \<le> j \<and> j < i + n \<longrightarrow> \<not> stop j) \<Longrightarrow> stop (i + n) \<Longrightarrow>
   as_nanos (sleep_from stop i d) = min (as_nanos d) (n * as_nanos CHECK)"
proof (induction stop i d arbitrary: n rule: sleep_from.induct)
  case (1 stop i d)
  let ?s = "min d CHECK"
  show ?case
  proof (cases "0 < as_nanos d \<and> 0 < n")
    case True
    then have first: "\<not> stop i" and pos: "Nanos 0 < d"
      using "1.prems"(1) by (auto simp: less_duration_def)
    obtain m where n: "n = Suc m" using True by (cases n) auto
    have "as_nanos (sleep_from stop (Suc i) (dur_saturating_sub d ?s)) =
        min (as_nanos (dur_saturating_sub d ?s)) (m * as_nanos CHECK)"
      by (rule "1.IH") (use pos first "1.prems" n in auto)
    moreover have "as_nanos (sleep_from stop i d) =
        as_nanos ?s + as_nanos (sleep_from stop (Suc i) (dur_saturating_sub d ?s))"
      by (subst sleep_from.simps) (use pos first in \<open>simp add: Let_def\<close>)
    moreover have "as_nanos (dur_saturating_sub d ?s) = as_nanos d - min (as_nanos d) (as_nanos CHECK)"
      by (simp add: dur_saturating_sub_def as_nanos_min)
    ultimately show ?thesis
      by (simp only: n as_nanos_min sleep_arith mult_Suc)
  next
    case False
    then show ?thesis
      using "1.prems"(2) by (auto simp: sleep_from.simps [of stop i d] less_duration_def)
  qed
qed

lemma sleep_undisturbed:
  "\<forall>j \<ge> i. \<not> stop j \<Longrightarrow> sleep_from stop i d = d"
proof (induction stop i d rule: sleep_from.induct)
  case (1 stop i d)
  show ?case
  proof (cases "Nanos 0 < d")
    case True
    moreover have "sleep_from stop (Suc i) (dur_saturating_sub d (min d CHECK)) =
        dur_saturating_sub d (min d CHECK)"
      by (rule "1.IH") (use True "1.prems" in auto)
    ultimately show ?thesis
      using "1.prems" by (simp add: sleep_from.simps [of stop i d] Let_def as_nanos_min
          dur_saturating_sub_def duration.expand)
  next
    case False
    then have "as_nanos d = 0" by (simp add: less_duration_def)
    then show ?thesis using False by (simp add: sleep_from.simps [of stop i d] duration.expand)
  qed
qed

section \<open>The poller's backoff\<close>

interpretation poller_backoff: doubling_backoff INITIAL_BACKOFF MAX_BACKOFF
  "\<lambda>d. min (dur_mul d 2) MAX_BACKOFF"
  by unfold_locales (simp_all add: INITIAL_BACKOFF_def MAX_BACKOFF_def duration_simps)

lemma failing_connects:
  "lv_client lv = False \<Longrightarrow> lv_backoff lv = poller_backoff.after n \<Longrightarrow>
   \<forall>w \<in> set ws. \<not> tw_connect w \<Longrightarrow>
   run_loop cfg ws lv = (lv', fxs) \<Longrightarrow>
   lv' = lv\<lparr>lv_backoff := poller_backoff.after (n + length ws)\<rparr> \<and>
   published fxs = [] \<and> sleeps fxs = map poller_backoff.after [n..<n + length ws]"
proof (induction ws arbitrary: lv n lv' fxs)
  case Nil
  then show ?case by (simp add: published_def sleeps_def)
next
  case (Cons w ws)
  let ?lv1 = "lv\<lparr>lv_backoff := poller_backoff.after (Suc n)\<rparr>"
  have step: "turn cfg w lv = (?lv1, \<lparr> fx_published = [], fx_replies = [], fx_sleeps = [poller_backoff.after n] \<rparr>)"
    using Cons.prems by (simp add: turn_def poller_backoff.after_Suc)
  obtain lv2 fxs2 where rest: "run_loop cfg ws ?lv1 = (lv2, fxs2)" by fastforce
  have "lv2 = ?lv1\<lparr>lv_backoff := poller_backoff.after (Suc n + length ws)\<rparr> \<and>
      published fxs2 = [] \<and> sleeps fxs2 = map poller_backoff.after [Suc n..<Suc n + length ws]"
    by (rule Cons.IH [OF _ _ _ rest]) (use Cons.prems in auto)
  moreover have "[n..<n + length (w # ws)] = n # [Suc n..<Suc n + length ws]"
    by (simp add: upt_conv_Cons del: upt_Suc)
  moreover have "lv' = lv2" "published fxs = published fxs2"
      "sleeps fxs = poller_backoff.after n # sleeps fxs2"
    using Cons.prems(4) step rest by (auto simp: published_def sleeps_def)
  ultimately show ?case by (simp del: upt_Suc)
qed

section \<open>What a turn publishes\<close>

text \<open>The consecutive snapshots of a run, from a tick and a previous clock reading on.\<close>

fun well_numbered :: "u64 \<Rightarrow> flow_stats_snapshot list \<Rightarrow> bool" where
  "well_numbered t [] \<longleftrightarrow> True"
| "well_numbered t (s # ss) \<longleftrightarrow> sn_tick_id s = t + 1 \<and> well_numbered (t + 1) ss"

fun last_tick :: "u64 \<Rightarrow> flow_stats_snapshot list \<Rightarrow> u64" where
  "last_tick t [] = t"
| "last_tick t (s # ss) = last_tick (t + 1) ss"

lemma well_numbered_append:
  "well_numbered t (xs @ ys) \<longleftrightarrow> well_numbered t xs \<and> well_numbered (last_tick t xs) ys"
  by (induction xs arbitrary: t) auto

text \<open>
  The clock readings a run takes, one for each successful snapshot call, from the answers of the
  world alone: \<open>connected\<close> is whether a client is held, and a reading is marked when it is the
  first one on a new connection.
\<close>

definition pull_reading :: "turn_world \<Rightarrow> (bool \<times> u64) list" where
  "pull_reading w =
     (if tw_pulls w = [] then []
      else case tw_pull_snapshot w of Err _ \<Rightarrow> [] | Ok _ \<Rightarrow> [(False, tw_pull_mono w)])"

definition turn_readings :: "bool \<Rightarrow> turn_world \<Rightarrow> (bool \<times> u64) list" where
  "turn_readings connected w =
     (if \<not> connected \<and> \<not> tw_connect w then []
      else case tw_snapshot w of Err _ \<Rightarrow> [] | Ok _ \<Rightarrow> (\<not> connected, tw_mono w) # pull_reading w)"

definition stays_connected :: "bool \<Rightarrow> turn_world \<Rightarrow> bool" where
  "stays_connected connected w \<longleftrightarrow>
     (connected \<or> tw_connect w) \<and> (case tw_snapshot w of Err _ \<Rightarrow> False | Ok _ \<Rightarrow> True)"

fun readings :: "bool \<Rightarrow> turn_world list \<Rightarrow> (bool \<times> u64) list" where
  "readings connected [] = []"
| "readings connected (w # ws) = turn_readings connected w @ readings (stays_connected connected w) ws"

text \<open>
  The interval each reading makes: the time since the reading before it. It is zero for the
  first reading on a connection, after a reading of zero, and for tick number one.
\<close>

fun intervals :: "u64 \<Rightarrow> u64 \<Rightarrow> (bool \<times> u64) list \<Rightarrow> u64 list" where
  "intervals t prev [] = []"
| "intervals t prev ((fresh, now) # rs) =
     (if fresh \<or> prev = 0 \<or> t + 1 = 1 then 0 else sat_sub now prev) # intervals (t + 1) now rs"

fun last_reading :: "u64 \<Rightarrow> (bool \<times> u64) list \<Rightarrow> u64" where
  "last_reading prev [] = prev"
| "last_reading prev ((fresh, now) # rs) = last_reading now rs"

lemma intervals_append:
  "intervals t prev (rs @ rs') =
   intervals t prev rs @ intervals (t + word_of_nat (length rs)) (last_reading prev rs) rs'"
  by (induction t prev rs rule: intervals.induct) (auto simp: algebra_simps)

lemma last_reading_append: "last_reading prev (rs @ rs') = last_reading (last_reading prev rs) rs'"
  by (induction prev rs rule: last_reading.induct) auto

lemma intervals_fresh: "intervals t p (readings False ws) = intervals t p' (readings False ws)"
proof (induction ws)
  case (Cons w ws)
  then show ?case
    by (cases "tw_snapshot w") (auto simp: turn_readings_def stays_connected_def)
qed simp

text \<open>What has been published agrees with the readings taken: clocks, intervals, and the variables left.\<close>

definition timed :: "loop_vars \<Rightarrow> loop_vars \<Rightarrow> flow_stats_snapshot list \<Rightarrow> (bool \<times> u64) list \<Rightarrow> bool" where
  "timed lv lv' pubs rs \<longleftrightarrow>
     map sn_monotonic_ns pubs = map snd rs \<and>
     map sn_interval_ns pubs = intervals (lv_tick_id lv) (lv_prev_mono lv) rs \<and>
     lv_tick_id lv' = lv_tick_id lv + word_of_nat (length rs) \<and>
     (lv_client lv' \<longrightarrow> lv_prev_mono lv' = last_reading (lv_prev_mono lv) rs)"

lemma publish_timed:
  assumes "publish rank raw wall now lv = (snap, lv')" "fresh \<and> lv_prev_mono lv = 0 \<or> \<not> fresh \<and> p = lv_prev_mono lv"
  shows "timed (lv\<lparr>lv_prev_mono := p\<rparr>) lv' [snap] [(fresh, now)]" "lv_client lv' = lv_client lv"
  using assms by (auto simp: publish_def timed_def decode_snapshot_def Let_def)

lemma timed_cons:
  assumes "timed a b [x] [r]" "lv_client b" "timed b c ys rs"
  shows "timed a c (x # ys) (r # rs)"
  using assms by (cases r) (auto simp: timed_def algebra_simps)

lemma serve_pulls_timed:
  assumes "lv_client lv" "serve_pulls w lv = (lv', fx)"
  shows "timed lv lv' (fx_published fx) (pull_reading w)" "lv_client lv'"
  using assms
  by (auto simp: serve_pulls_def pull_reading_def timed_def publish_def decode_snapshot_def Let_def
      split: if_splits sum.splits prod.splits)

text \<open>A connected turn, on an old connection or, its previous reading forgotten, on a new one.\<close>

lemma connected_turn_timed:
  assumes "connected_turn cfg w lv = (lv', fx)" "lv_client lv"
    "connected \<and> p = lv_prev_mono lv \<or> \<not> connected \<and> lv_prev_mono lv = 0 \<and> tw_connect w"
  shows "timed (lv\<lparr>lv_prev_mono := p\<rparr>) lv' (fx_published fx) (turn_readings connected w)"
    and "lv_client lv' = stays_connected connected w"
proof -
  have "timed (lv\<lparr>lv_prev_mono := p\<rparr>) lv' (fx_published fx) (turn_readings connected w) \<and>
      lv_client lv' = stays_connected connected w"
  proof (cases "tw_snapshot w")
    case (Inl e)
    then show ?thesis
      using assms by (auto simp: connected_turn_def turn_readings_def stays_connected_def timed_def)
  next
    case (Inr raw)
    obtain snap lv1 where p: "publish (tw_rank w) raw (tw_wall w) (tw_mono w) lv = (snap, lv1)"
      by fastforce
    obtain lv2 fx2 where s: "serve_pulls w lv1 = (lv2, fx2)" by fastforce
    note first = publish_timed [OF p, of "\<not> connected" p]
    then have c1: "lv_client lv1" using assms(2,3) by auto
    have "timed (lv\<lparr>lv_prev_mono := p\<rparr>) lv1 [snap] [(\<not> connected, tw_mono w)]"
      using first(1) assms(3) by auto
    from timed_cons [OF this c1 serve_pulls_timed(1) [OF c1 s]] show ?thesis
      using assms Inr p s serve_pulls_timed(2) [OF c1 s]
      by (auto simp: connected_turn_def turn_readings_def stays_connected_def)
  qed
  then show "timed (lv\<lparr>lv_prev_mono := p\<rparr>) lv' (fx_published fx) (turn_readings connected w)"
    "lv_client lv' = stays_connected connected w" by blast+
qed

lemma turn_timed:
  assumes "turn cfg w lv = (lv', fx)"
  shows "timed lv lv' (fx_published fx) (turn_readings (lv_client lv) w)"
    and "lv_client lv' = stays_connected (lv_client lv) w"
proof -
  let ?c = "lv\<lparr>lv_client := True, lv_backoff := INITIAL_BACKOFF, lv_prev_mono := 0\<rparr>"
  have "timed lv lv' (fx_published fx) (turn_readings (lv_client lv) w) \<and>
      lv_client lv' = stays_connected (lv_client lv) w"
  proof (cases "lv_client lv")
    case True
    then show ?thesis
      using assms connected_turn_timed [of cfg w lv lv' fx True "lv_prev_mono lv"] by (simp add: turn_def)
  next
    case new: False
    show ?thesis
    proof (cases "tw_connect w")
      case True
      with new have c: "connected_turn cfg w ?c = (lv', fx)" using assms by (simp add: turn_def)
      show ?thesis
        using connected_turn_timed [OF c, of False "lv_prev_mono lv"] new True by (simp add: timed_def)
    next
      case False
      then show ?thesis
        using new assms by (auto simp: turn_def turn_readings_def stays_connected_def timed_def)
    qed
  qed
  then show "timed lv lv' (fx_published fx) (turn_readings (lv_client lv) w)"
    "lv_client lv' = stays_connected (lv_client lv) w" by blast+
qed

lemma run_loop_timed:
  "run_loop cfg ws lv = (lv', fxs) \<Longrightarrow>
   map sn_monotonic_ns (published fxs) = map snd (readings (lv_client lv) ws) \<and>
   map sn_interval_ns (published fxs) =
     intervals (lv_tick_id lv) (lv_prev_mono lv) (readings (lv_client lv) ws)"
proof (induction ws arbitrary: lv lv' fxs)
  case Nil
  then show ?case by (simp add: published_def)
next
  case (Cons w ws)
  obtain lv1 fx where t: "turn cfg w lv = (lv1, fx)" by fastforce
  obtain lv2 fxs2 where r: "run_loop cfg ws lv1 = (lv2, fxs2)" by fastforce
  have "published fxs = fx_published fx @ published fxs2"
    using Cons.prems t r by (auto simp: published_def)
  moreover have "intervals (lv_tick_id lv1) (lv_prev_mono lv1) (readings (lv_client lv1) ws) =
      intervals (lv_tick_id lv1) (last_reading (lv_prev_mono lv) (turn_readings (lv_client lv) w))
        (readings (lv_client lv1) ws)"
    using turn_timed(1) [OF t] intervals_fresh by (cases "lv_client lv1") (auto simp: timed_def)
  ultimately show ?case
    using turn_timed [OF t] Cons.IH [OF r] by (simp add: timed_def intervals_append)
qed

definition step_ok :: "loop_vars \<Rightarrow> loop_vars \<Rightarrow> flow_stats_snapshot list \<Rightarrow> bool" where
  "step_ok lv lv' pubs \<longleftrightarrow>
     well_numbered (lv_tick_id lv) pubs \<and> lv_tick_id lv' = last_tick (lv_tick_id lv) pubs \<and>
     lv_senders lv' = map (\<lambda>tx. fold (\<lambda>s c. snd (mpsc_try_send s c)) pubs tx) (lv_senders lv)"

lemma last_tick_append: "last_tick t (xs @ ys) = last_tick (last_tick t xs) ys"
  by (induction xs arbitrary: t) auto

lemma step_ok_refl:
  "lv_tick_id lv' = lv_tick_id lv \<Longrightarrow> lv_senders lv' = lv_senders lv \<Longrightarrow> step_ok lv lv' []"
  by (simp add: step_ok_def)

lemma step_ok_trans:
  "step_ok a b xs \<Longrightarrow> step_ok b c ys \<Longrightarrow> step_ok a c (xs @ ys)"
  by (auto simp: step_ok_def well_numbered_append last_tick_append)

lemma publish_ok:
  "publish rank raw wall mono_ns lv = (snap, lv') \<Longrightarrow>
   step_ok lv lv' [snap] \<and> lv_client lv' = lv_client lv"
  by (auto simp: publish_def Let_def step_ok_def fan_out_def decode_snapshot_def)

lemma publish_client: "publish rank raw wall mono_ns lv = (snap, lv') \<Longrightarrow> lv_client lv' = lv_client lv"
  by (simp add: publish_ok)

lemma serve_pulls_ok:
  assumes "serve_pulls w lv = (lv', fx)"
  shows "step_ok lv lv' (fx_published fx)"
    and "fx_replies fx = [] \<or> (\<exists>snap. fx_published fx = [snap] \<and> fx_replies fx = map (\<lambda>p. (p, snap)) (tw_pulls w))"
  using assms
  by (auto simp: serve_pulls_def step_ok_refl publish_ok split: if_splits sum.splits prod.splits)

lemma connected_turn_ok:
  assumes "connected_turn cfg w lv = (lv', fx)"
  shows "step_ok lv lv' (fx_published fx)"
proof (cases "tw_snapshot w")
  case (Inl e)
  then show ?thesis using assms by (auto simp: connected_turn_def step_ok_refl)
next
  case (Inr raw)
  obtain snap lv1 where p: "publish (tw_rank w) raw (tw_wall w) (tw_mono w) lv = (snap, lv1)"
    by fastforce
  obtain lv2 fx2 where s: "serve_pulls w lv1 = (lv2, fx2)" by fastforce
  have "step_ok lv lv2 ([snap] @ fx_published fx2)"
    using publish_ok [OF p] serve_pulls_ok(1) [OF s] by (blast intro: step_ok_trans)
  then show ?thesis using assms Inr p s by (auto simp: connected_turn_def)
qed

lemma turn_ok: "turn cfg w lv = (lv', fx) \<Longrightarrow> step_ok lv lv' (fx_published fx)"
proof -
  assume t: "turn cfg w lv = (lv', fx)"
  let ?c = "lv\<lparr>lv_client := True, lv_backoff := INITIAL_BACKOFF, lv_prev_mono := 0\<rparr>"
  have c: "step_ok lv ?c []" by (rule step_ok_refl) auto
  show ?thesis
    using t step_ok_trans [OF c connected_turn_ok, of cfg w lv' fx] connected_turn_ok [of cfg w lv lv' fx]
    by (auto simp: turn_def step_ok_refl split: if_splits)
qed

lemma run_loop_ok: "run_loop cfg ws lv = (lv', fxs) \<Longrightarrow> step_ok lv lv' (published fxs)"
proof (induction ws arbitrary: lv lv' fxs)
  case Nil
  then show ?case by (simp add: published_def step_ok_refl)
next
  case (Cons w ws)
  obtain lv1 fx where t: "turn cfg w lv = (lv1, fx)" by fastforce
  obtain lv2 fxs2 where r: "run_loop cfg ws lv1 = (lv2, fxs2)" by fastforce
  have "step_ok lv lv2 (fx_published fx @ published fxs2)"
    using turn_ok [OF t] Cons.IH [OF r] by (rule step_ok_trans)
  then show ?case using Cons.prems t r by (auto simp: published_def)
qed

lemma failing_snapshots:
  "list_all (\<lambda>w. tw_connect w \<and> (\<exists>e. tw_snapshot w = Err e)) ws \<Longrightarrow>
   run_loop cfg ws lv = (lv', fxs) \<Longrightarrow>
   sleeps fxs = [] \<and> published fxs = [] \<and> lv_tick_id lv' = lv_tick_id lv"
proof (induction ws arbitrary: lv lv' fxs)
  case (Cons w ws)
  obtain lv1 fx where t: "turn cfg w lv = (lv1, fx)" by fastforce
  obtain lv2 fxs2 where r: "run_loop cfg ws lv1 = (lv2, fxs2)" by fastforce
  have "fx_sleeps fx = []" "fx_published fx = []" "lv_tick_id lv1 = lv_tick_id lv"
    using Cons.prems(1) t by (auto simp: turn_def connected_turn_def split: if_splits)
  moreover have "sleeps fxs2 = [] \<and> published fxs2 = [] \<and> lv_tick_id lv2 = lv_tick_id lv1"
    by (rule Cons.IH [OF _ r]) (use Cons.prems(1) in simp)
  moreover have "fxs = fx # fxs2" "lv' = lv2" using Cons.prems(2) t r by auto
  ultimately show ?case by (simp add: published_def sleeps_def)
qed (simp add: published_def sleeps_def)

section \<open>Properties\<close>

text \<open>What the backend answers of one rule, and the rules of which it answers anything.\<close>

definition streamed_of :: "vapi_answers \<Rightarrow> flow_rule_id \<Rightarrow> ffi_flow_entry list" where
  "streamed_of api frid = fst (va_snapshot api (id_hi frid) (id_lo frid))"

definition answered :: "vapi_answers \<Rightarrow> flow_rule_id list" where
  "answered api =
     filter (\<lambda>frid. snd (va_snapshot api (id_hi frid) (id_lo frid)) = 0 \<and> streamed_of api frid \<noteq> [])
       (map (\<lambda>(hi, lo). \<lparr> id_hi = hi, id_lo = lo \<rparr>) (fst (va_list api)))"

text \<open>What all the entries of a key amount to, over all workers, hashes and epochs.\<close>

definition totals :: "ffi_flow_entry list \<Rightarrow> u8 list \<Rightarrow> merged_slot option" where
  "totals streamed k =
     (let g = filter (\<lambda>e. ce_key_bytes e = k) (map entry_cb streamed)
      in if k = [] \<or> g = [] then None
         else Some \<lparr> mg_packets = word_of_nat (sat_total (map ce_packets g)),
                     mg_bytes = word_of_nat (sat_total (map ce_bytes g)),
                     mg_last_update = Max (set (map ce_last_update g)) \<rparr>)"

lemma collect_descriptors_answered:
  "collect_descriptors api frids =
   map (\<lambda>frid. packed frid (streamed_of api frid))
     (filter (\<lambda>frid. snd (va_snapshot api (id_hi frid) (id_lo frid)) = 0 \<and> streamed_of api frid \<noteq> []) frids)"
  by (induction frids) (auto simp: packed_def streamed_of_def Let_def split: prod.splits)

lemma snapshot_answered:
  "snd (va_list api) = 0 \<Longrightarrow>
   snapshot_and_clear api =
     Ok \<lparr> raw_descriptors = map (\<lambda>frid. packed frid (streamed_of api frid)) (answered api) \<rparr>"
  by (cases "va_list api")
    (simp add: snapshot_and_clear_def list_flow_rules_def collect_descriptors_answered answered_def)

lemma merge_slots_totals:
  assumes "arena_fits streamed"
  shows "distinct (map fst (merge_slots (packed frid streamed)))"
    and "map_of (merge_slots (packed frid streamed)) k = totals streamed k"
proof -
  let ?t = "merge_slots (packed frid streamed)"
  show d: "distinct (map fst ?t)" by (simp only: merge_slots_keys distinct_first_keys)
  let ?g = "filter (\<lambda>e. ce_key_bytes e = k) (map entry_cb streamed)"
  show "map_of ?t k = totals streamed k"
  proof (cases "\<exists>m. (k, m) \<in> set ?t")
    case True
    then obtain m where m: "(k, m) \<in> set ?t" by blast
    note mem = packed_merge_member [OF assms m]
    have "map_of ?t k = Some m" using d m by (rule map_of_is_SomeI)
    moreover have "mg_packets m = word_of_nat (sat_total (map ce_packets ?g))"
        "mg_bytes m = word_of_nat (sat_total (map ce_bytes ?g))"
      by (simp_all add: mem(2,3) [symmetric])
    ultimately show ?thesis
      using mem(1,4) merge_slots_nonempty [OF m] by (cases m) (simp add: totals_def Let_def)
  next
    case False
    then have "map_of ?t k = None" by (auto simp: map_of_eq_None_iff)
    moreover have "k = [] \<or> ?g = []" using False packed_merge_key [OF assms] by blast
    ultimately show ?thesis by (auto simp: totals_def Let_def)
  qed
qed

text \<open>
  With a key schema, the flows of a decoded rule would report just these totals. The program
  has no schema yet (see below), so this is about the merge and the decoder only.
\<close>

lemma pipeline_totals:
  assumes "arena_fits streamed"
  shows "distinct (map fl_key (decode_flows rank flds (packed frid streamed)))"
    and "fl \<in> set (decode_flows rank flds (packed frid streamed)) \<longleftrightarrow>
      reports flds (map entry_cb streamed) fl"
  using assms by (simp_all add: decode_flows_distinct decode_flows_reports)

text \<open>
  C3. From the backend's answers to the decoded snapshot, as the poller runs it. When the
  listing succeeds and the merged keys fit the 32-bit offsets, the snapshot has one rule for
  each listed id whose stream succeeded with an entry, in the order of the listing, named by
  its id, with the insert failures of its first entry as drops. The table of a rule, which
  the decoder builds from the arena, has one slot for each non-empty key that was streamed,
  with the saturating totals of the packets and bytes of all entries with the key and their
  latest update: the merge by hash and key in the client, the packing, the reading back and
  the second merge by key alone lose and double nothing. Yet the table is then dropped, as
  the empty schema decodes none of its keys: no rule has a flow.
\<close>

theorem snapshot_of_answers:
  assumes "snd (va_list api) = 0"
    and "list_all (\<lambda>frid. arena_fits (streamed_of api frid)) (answered api)"
  shows "case snapshot_and_clear api of Err e \<Rightarrow> False | Ok raw \<Rightarrow>
      sn_flow_rules (decode_snapshot rank raw tick_id wall mono_ns prev_mono) =
        map (\<lambda>frid. \<lparr> rs_name = display_id frid, rs_fields = [], rs_max_keys = - 1,
              rs_eviction_policy = LruDrop, rs_flows = [],
              rs_counters = \<lparr> rc_evictions = 0,
                rc_drops = fe_insert_failed (hd (streamed_of api frid)), rc_packets = 0, rc_bytes = 0 \<rparr> \<rparr>)
          (answered api) \<and>
      list_all2 (\<lambda>frid desc. distinct (map fst (merge_slots desc)) \<and>
          map_of (merge_slots desc) = totals (streamed_of api frid))
        (answered api) (raw_descriptors raw)"
proof -
  have "streamed_of api frid \<noteq> []" if "frid \<in> set (answered api)" for frid
    using that by (auto simp: answered_def)
  then have "decode_descriptor rank (packed frid (streamed_of api frid)) =
      \<lparr> rs_name = display_id frid, rs_fields = [], rs_max_keys = - 1, rs_eviction_policy = LruDrop,
        rs_flows = [], rs_counters = \<lparr> rc_evictions = 0,
          rc_drops = fe_insert_failed (hd (streamed_of api frid)), rc_packets = 0, rc_bytes = 0 \<rparr> \<rparr>"
    if "frid \<in> set (answered api)" for frid
    using that by (simp add: decode_descriptor_def Let_def decode_flows_no_fields packed_def
        build_descriptor_def hd_map entry_cb_def)
  moreover have "distinct (map fst (merge_slots (packed frid (streamed_of api frid))))"
      "map_of (merge_slots (packed frid (streamed_of api frid))) = totals (streamed_of api frid)"
    if "frid \<in> set (answered api)" for frid
    using that assms(2) merge_slots_totals by (auto simp: list_all_iff fun_eq_iff)
  ultimately show ?thesis
    by (simp add: snapshot_answered [OF assms(1)] decode_snapshot_def list.rel_map list_all2_same o_def)
qed

text \<open>Two workers report key 6 under different hashes; a second rule answers nothing.\<close>

definition example_entry :: "u64 \<Rightarrow> u64 \<Rightarrow> u64 \<Rightarrow> u64 \<Rightarrow> ffi_flow_entry" where
  "example_entry h p b t =
     \<lparr> fe_flow_rule_id_hi = 1, fe_flow_rule_id_lo = 2, fe_generation = 1, fe_epoch_ns = 0,
       fe_insert_failed = 4, fe_table_full = 0, fe_key_hash = h, fe_packets = p, fe_bytes = b,
       fe_last_update = t, fe_key_len = 1, fe_key_data = Some [6] \<rparr>"

definition example_answers :: vapi_answers where
  "example_answers =
     \<lparr> va_list = ([(1, 2), (3, 4)], 0),
       va_snapshot = (\<lambda>hi lo. if hi = 1 then ([example_entry 7 2 10 9, example_entry 8 3 20 4], 0)
                               else ([], 0)) \<rparr>"

theorem snapshot_of_answers_witness:
  "case snapshot_and_clear example_answers of Err e \<Rightarrow> False | Ok raw \<Rightarrow>
     map rs_name (sn_flow_rules (decode_snapshot (\<lambda>_. 0) raw 1 0 0 0)) =
       [display_id \<lparr> id_hi = 1, id_lo = 2 \<rparr>] \<and>
     map (\<lambda>desc. map_of (merge_slots desc) [6]) (raw_descriptors raw) =
       [Some \<lparr> mg_packets = 5, mg_bytes = 30, mg_last_update = 9 \<rparr>]"
proof -
  have ids: "answered example_answers = [\<lparr> id_hi = 1, id_lo = 2 \<rparr>]"
    by (simp add: answered_def streamed_of_def example_answers_def)
  have str: "streamed_of example_answers \<lparr> id_hi = 1, id_lo = 2 \<rparr> =
      [example_entry 7 2 10 9, example_entry 8 3 20 4]"
    by (simp add: streamed_of_def example_answers_def)
  have tot: "totals [example_entry 7 2 10 9, example_entry 8 3 20 4] [6] =
      Some \<lparr> mg_packets = 5, mg_bytes = 30, mg_last_update = 9 \<rparr>"
    by (simp add: totals_def entry_cb_def example_entry_def sat_total_def)
  have "snd (va_list example_answers) = 0" by (simp add: example_answers_def)
  moreover have "list_all (\<lambda>frid. arena_fits (streamed_of example_answers frid)) (answered example_answers)"
    by (simp add: ids str arena_fits_def merge_worker_entries_def merge_step_def entry_identity_def
        entry_cb_def example_entry_def)
  ultimately show ?thesis
    using snapshot_of_answers [of example_answers "\<lambda>_. 0" 1 0 0 0]
    by (auto simp: ids str tot list_all2_Cons1 split: sum.splits)
qed

text \<open>
  As the poller stands, no decoded rule has any flow, whatever the backend sent: keys are
  decoded with an empty schema, slots without a key are skipped, and every other key is
  rejected for its trailing bytes.
\<close>

theorem flows_always_empty:
  "map rs_flows (sn_flow_rules (decode_snapshot rank raw tick_id wall mono_ns prev_mono)) =
   replicate (length (raw_descriptors raw)) []"
  by (simp add: decode_snapshot_def decode_descriptor_def Let_def decode_flows_no_fields
      map_replicate_const o_def)

text \<open>
  C18. In any run of the loop from its start, the published snapshots are numbered 1, 2, 3, ... in
  the order of publication, one for each snapshot call that succeeded. Each carries the clock
  reading taken after its call, and as its interval exactly the time since the reading before
  it; the interval is zero for the first snapshot on a connection, and after a clock that read
  zero. Every exporter's channel ends as if it alone had been offered each of them in turn, so
  a full or disconnected exporter never affects another.
\<close>

theorem run_publishes:
  "case run_loop cfg ws (loop_start senders) of (lv, fxs) \<Rightarrow>
     well_numbered 0 (published fxs) \<and>
     map sn_monotonic_ns (published fxs) = map snd (readings False ws) \<and>
     map sn_interval_ns (published fxs) = intervals 0 0 (readings False ws) \<and>
     lv_senders lv = map (\<lambda>tx. fold (\<lambda>s c. snd (mpsc_try_send s c)) (published fxs) tx) senders"
proof -
  obtain lv fxs where r: "run_loop cfg ws (loop_start senders) = (lv, fxs)" by fastforce
  show ?thesis
    using run_loop_ok [OF r] run_loop_timed [OF r] unfolding r prod.case step_ok_def
    by (auto simp: loop_start_def)
qed

text \<open>
  While the backend cannot be reached, the \<open>n\<close>-th retry is preceded by a sleep of
  100 ms doubled \<open>n\<close> times, at most 5 s, and nothing is published.
\<close>

theorem reconnect_backoff:
  assumes "list_all (\<lambda>w. \<not> tw_connect w) ws"
  shows "case run_loop cfg ws (loop_start senders) of (lv, fxs) \<Rightarrow>
    published fxs = [] \<and>
    sleeps fxs = map (\<lambda>n. min (dur_mul (from_millis 100) (2 ^ n)) (from_secs 5)) [0..<length ws]"
proof -
  obtain lv fxs where r: "run_loop cfg ws (loop_start senders) = (lv, fxs)" by fastforce
  have "published fxs = [] \<and> sleeps fxs = map poller_backoff.after [0..<0 + length ws]"
    using failing_connects [of "loop_start senders" 0 ws cfg lv fxs] r assms
    by (simp add: loop_start_def list_all_iff)
  moreover have "poller_backoff.after = (\<lambda>n. min (dur_mul (from_millis 100) (2 ^ n)) (from_secs 5))"
    by (rule ext, subst poller_backoff.after_closed) (simp add: INITIAL_BACKOFF_def MAX_BACKOFF_def)
  ultimately show ?thesis unfolding r prod.case by (simp only: add_0)
qed

definition failing_world :: "bool \<Rightarrow> turn_world" where
  "failing_world connects =
     \<lparr> tw_tick_start = 0, tw_connect = connects, tw_rank = (\<lambda>_. 0), tw_snapshot = Err ListFailed,
       tw_wall = 0, tw_mono = 0, tw_pulls = [], tw_pull_snapshot = Err ListFailed,
       tw_pull_wall = 0, tw_pull_mono = 0, tw_tick_end = 0 \<rparr>"

theorem reconnect_backoff_witness:
  "sleeps (snd (run_loop default_poller_config (replicate 8 (failing_world False)) (loop_start []))) =
   map from_millis [100, 200, 400, 800, 1600, 3200, 5000, 5000]"
  using reconnect_backoff [of "replicate 8 (failing_world False)" default_poller_config "[]"]
  by (simp add: failing_world_def list_all_length split: prod.splits)
    (simp add: upt_rec duration_simps min_def)

text \<open>
  When the connection can be made but every snapshot call fails, the loop never sleeps at
  all: each turn drops the client and the next one reconnects at once, whatever the number
  of turns. The exponential backoff covers failed connections only.
\<close>

theorem failing_snapshots_spin:
  assumes "list_all (\<lambda>w. tw_connect w \<and> (\<exists>e. tw_snapshot w = Err e)) ws"
  shows "sleeps (snd (run_loop cfg ws lv)) = []"
  using failing_snapshots [OF assms] by (metis prod.collapse)

theorem failing_snapshots_spin_witness:
  "sleeps (snd (run_loop default_poller_config (replicate 1000 (failing_world True)) (loop_start []))) = []"
  by (rule failing_snapshots_spin) (simp add: failing_world_def list_all_length)

text \<open>
  A turn answers its pending pull requests all with one and the same snapshot, which is
  also the last it publishes, or answers none of them.
\<close>

theorem pulls_share_snapshot:
  "case turn cfg w lv of (lv', fx) \<Rightarrow>
     fx_replies fx = [] \<or>
     (fx_published fx \<noteq> [] \<and> fx_replies fx = map (\<lambda>p. (p, last (fx_published fx))) (tw_pulls w))"
proof -
  have "fx_replies fx = [] \<or>
      (fx_published fx \<noteq> [] \<and> fx_replies fx = map (\<lambda>p. (p, last (fx_published fx))) (tw_pulls w))"
    if c: "connected_turn cfg w lv0 = (lv', fx)" for lv0 lv' fx
  proof (cases "tw_snapshot w")
    case (Inr raw)
    obtain snap lv1 where p: "publish (tw_rank w) raw (tw_wall w) (tw_mono w) lv0 = (snap, lv1)"
      by fastforce
    obtain lv2 fx2 where s: "serve_pulls w lv1 = (lv2, fx2)" by fastforce
    show ?thesis using serve_pulls_ok(2) [OF s] c Inr p s by (auto simp: connected_turn_def)
  qed (use c in \<open>auto simp: connected_turn_def\<close>)
  then show ?thesis by (auto simp: turn_def split: prod.splits)
qed

text \<open>
  C37. The interruptible sleep reacts to the stop flag within its polling step: if the flag is
  first seen set at look \<open>n\<close>, the time slept is exactly 50 ms times \<open>n\<close>, or the requested
  time when that is shorter.
\<close>

theorem sleep_interruptible_exact:
  assumes "stop n" "list_all (\<lambda>i. \<not> stop i) [0..<n]"
  shows "as_nanos (sleep_interruptible d stop) = min (as_nanos d) (n * 50000000)"
  using sleep_until [of 0 n stop d] assms
  by (simp add: sleep_interruptible_def CHECK_def from_millis_def list_all_iff)

theorem sleep_interruptible_exact_witness:
  "as_nanos (sleep_interruptible (from_secs 5) (\<lambda>i. 3 \<le> i)) = 150000000"
  using sleep_interruptible_exact [of "\<lambda>i. 3 \<le> i" 3 "from_secs 5"]
  by (simp add: from_secs_def list_all_iff)

end
