(* ===== verification/IpText.thy ===== *)
theory IpText
  imports Decode
begin

text \<open>
  The text forms of addresses and field values, as the standard library prints them: dotted
  decimal, the compressed hexadecimal form of IPv6, and the derived \<open>Debug\<close> of a field
  value. The control server shows keys with the latter and the OTLP exporter puts the former
  in its attributes.
\<close>

definition show_ipv4 :: "u8 list \<Rightarrow> string" where
  "show_ipv4 octets = join ''.'' (map (show_nat \<circ> unat) octets)"

fun show_hex :: "nat \<Rightarrow> string" where
  "show_hex n = (if n < 16 then [digit_char n] else show_hex (n div 16) @ [digit_char (n mod 16)])"

declare show_hex.simps [simp del]

fun segments :: "u8 list \<Rightarrow> nat list" where
  "segments (a # b # rest) = (256 * unat a + unat b) # segments rest"
| "segments _ = []"

text \<open>The first longest run of zero segments, as its start and length.\<close>

fun zero_span :: "nat \<Rightarrow> nat list \<Rightarrow> nat \<times> nat \<Rightarrow> nat \<times> nat \<Rightarrow> nat \<times> nat" where
  "zero_span i [] longest current = longest"
| "zero_span i (s # ss) longest current =
     (if s = 0 then
        let current' = (if snd current = 0 then (i, 1) else (fst current, snd current + 1));
            longest' = (if snd longest < snd current' then current' else longest)
        in zero_span (Suc i) ss longest' current'
      else zero_span (Suc i) ss longest (0, 0))"

definition show_ipv6 :: "u8 list \<Rightarrow> string" where
  "show_ipv6 octets =
     (case to_ipv4_mapped octets of
        Some v4 \<Rightarrow> ''::ffff:'' @ show_ipv4 v4
      | None \<Rightarrow>
          (let segs = segments octets;
               zeroes = zero_span 0 segs (0, 0) (0, 0);
               part = (\<lambda>ss. join '':'' (map show_hex ss))
           in if 1 < snd zeroes
              then part (take (fst zeroes) segs) @ ''::'' @ part (drop (fst zeroes + snd zeroes) segs)
              else part segs))"

fun show_ip :: "ip_addr \<Rightarrow> string" where
  "show_ip (V4 a) = show_ipv4 a"
| "show_ip (V6 a) = show_ipv6 a"

fun debug_value :: "field_value \<Rightarrow> string" where
  "debug_value (VIp a) = ''Ip('' @ show_ip a @ '')''"
| "debug_value (VProto p) = ''Proto('' @ show_nat (unat p) @ '')''"
| "debug_value (VDscp d) = ''Dscp('' @ show_nat (unat d) @ '')''"
| "debug_value (VPort p) = ''Port('' @ show_nat (unat p) @ '')''"

end
