(* ===== verification/Protocol.thy ===== *)
theory Protocol
  imports IpText
begin

text \<open>
  The messages of the control socket, \<open>src/common/src/ipc/protocol.rs\<close>: requests with their
  parameters, the response envelope and its data. Their JSON text is serde's.
\<close>

section \<open>Requests\<close>

record flow_rule_add_params =
  ap_name :: string
  ap_fields :: "field list"
  ap_max_keys :: u32
  ap_eviction_policy :: eviction_policy

record flow_rule_rm_params =
  rmp_name :: string

record flow_rule_show_params =
  shp_name :: string

record stats_show_params =
  ssp_name :: "string option"

datatype request =
    FlowRuleAdd flow_rule_add_params
  | FlowRuleRm flow_rule_rm_params
  | FlowRuleList
  | FlowRuleShow flow_rule_show_params
  | StatsShow stats_show_params
  | StatsPull

section \<open>Responses\<close>

record flow_rule_data =
  rd_name :: string
  rd_fields :: "field list"
  rd_max_keys :: u32
  rd_eviction_policy :: eviction_policy

record flow_rule_list_data =
  rl_rules :: "flow_rule_data list"

record flow_rule_id_data =
  idd_id :: string

record flow_rule_counters_data =
  cd_packets :: u64
  cd_bytes :: u64
  cd_evictions :: u64
  cd_drops :: u64

record flow_entry_data =
  ed_key :: "string list"
  ed_packets :: u64
  ed_bytes :: u64
  ed_first_seen_ns :: u64
  ed_last_seen_ns :: u64

record flow_rule_detail_data =
  dd_name :: string
  dd_fields :: "field list"
  dd_max_keys :: u32
  dd_eviction_policy :: eviction_policy
  dd_counters :: flow_rule_counters_data
  dd_flows :: "flow_entry_data list"

record flow_rule_stats_data =
  sd_name :: string
  sd_packets :: u64
  sd_bytes :: u64
  sd_evictions :: u64
  sd_drops :: u64
  sd_active_flows :: u64

record stats_show_data =
  ss_flow_rules :: "flow_rule_stats_data list"

record stats_pull_data =
  sp_tick_id :: u64
  sp_wall_clock_ns :: u64
  sp_stats :: stats_show_data

datatype response_data =
    RFlowRuleId flow_rule_id_data
  | RFlowRuleList flow_rule_list_data
  | RFlowRuleDetail flow_rule_detail_data
  | RStatsShow stats_show_data
  | RStatsPull stats_pull_data

record error_data =
  er_code :: int
  er_message :: string

record response =
  rp_ok :: bool
  rp_data :: "response_data option"
  rp_error :: "error_data option"

definition flow_rule_data_from :: "flow_rule \<Rightarrow> flow_rule_data" where
  "flow_rule_data_from r =
     \<lparr> rd_name = fr_name r, rd_fields = fr_fields r, rd_max_keys = fr_max_keys r,
       rd_eviction_policy = fr_eviction_policy r \<rparr>"

definition response_ok :: "response_data \<Rightarrow> response" where
  "response_ok d = \<lparr> rp_ok = True, rp_data = Some d, rp_error = None \<rparr>"

definition response_ok_empty :: response where
  "response_ok_empty = \<lparr> rp_ok = True, rp_data = None, rp_error = None \<rparr>"

definition response_err :: "int \<Rightarrow> string \<Rightarrow> response" where
  "response_err code message =
     \<lparr> rp_ok = False, rp_data = None, rp_error = Some \<lparr> er_code = code, er_message = message \<rparr> \<rparr>"

lemmas response_defs = response_ok_def response_ok_empty_def response_err_def

text \<open>The envelope: data only on success, an error exactly on failure.\<close>

definition envelope_ok :: "response \<Rightarrow> bool" where
  "envelope_ok r \<longleftrightarrow> (if rp_ok r then rp_error r = None else rp_data r = None \<and> rp_error r \<noteq> None)"

lemma envelope_simps [simp]:
  "envelope_ok (response_ok d)" "envelope_ok response_ok_empty" "envelope_ok (response_err c m)"
  "rp_ok (response_ok d)" "rp_ok response_ok_empty" "\<not> rp_ok (response_err c m)"
  by (simp_all add: envelope_ok_def response_defs)

end
