(* ===== verification/Steps.thy ===== *)
theory Steps
  imports Main
begin

text \<open>
  Systems of interleaved steps, as the daemon's threads are modelled: the states a step relation
  reaches, and the two ways the development reasons about them. A \<open>step_invariant\<close> is a property
  every step keeps; a \<open>step_progress\<close> relates every state with all later ones, under an
  invariant, by a preorder every step respects. \<open>Control\<close>, \<open>Pipeline\<close> and \<open>Delivery\<close> interpret
  them on their own steps.
\<close>

inductive reaches :: "('s \<Rightarrow> 's \<Rightarrow> bool) \<Rightarrow> 's \<Rightarrow> 's \<Rightarrow> bool" for step s0 where
  start: "reaches step s0 s0"
| more: "reaches step s0 s \<Longrightarrow> step s s' \<Longrightarrow> reaches step s0 s'"

lemma reaches_trans:
  assumes "reaches step s s'" "reaches step s' s''"
  shows "reaches step s s''"
  using assms(2) by induction (auto intro: assms(1) reaches.more)

lemma reaches_star: "reaches step = step\<^sup>*\<^sup>*"
proof (intro ext iffI)
  show "step\<^sup>*\<^sup>* s s'" if "reaches step s s'" for s s'
    using that by induction (auto intro: rtranclp.rtrancl_into_rtrancl)
  show "reaches step s s'" if "step\<^sup>*\<^sup>* s s'" for s s'
    using that by induction (auto intro: reaches.intros)
qed

locale step_invariant =
  fixes step :: "'s \<Rightarrow> 's \<Rightarrow> bool"
    and inv :: "'s \<Rightarrow> bool"
  assumes keeps: "inv s \<Longrightarrow> step s s' \<Longrightarrow> inv s'"
begin

lemma reached: "inv s0 \<Longrightarrow> reaches step s0 s \<Longrightarrow> inv s"
  by (rotate_tac, induction rule: reaches.induct) (auto intro: keeps)

end

locale step_progress = step_invariant +
  fixes before :: "'s \<Rightarrow> 's \<Rightarrow> bool"
  assumes before_refl: "before s s"
    and before_trans: "before s s' \<Longrightarrow> before s' s'' \<Longrightarrow> before s s''"
    and advances: "inv s \<Longrightarrow> step s s' \<Longrightarrow> before s s'"
begin

lemma reached_before:
  assumes "inv s0" "reaches step s0 s"
  shows "before s0 s"
  using assms(2)
proof induction
  case (more s s')
  then show ?case using before_trans advances reached [OF assms(1)] by blast
qed (rule before_refl)

end

end
