(* ===== verification/Control.thy ===== *)
theory Control
  imports Protocol VapiClient RuleStore Channel Steps
begin

text \<open>
  The control server, \<open>src/frontend/src/control.rs\<close>: the shared state, one handler per
  request, and the treatment of one connection's line. The VPP backend behind the optional
  control client and the poller's answer to a pull are parameters. Every handler runs under
  the server's single thread, so a request is one step from state to state. The table of
  rules is the second implementation of the \<open>rule_store\<close> interface.
\<close>

section \<open>State\<close>

record 'b control_state =
  cs_flow_rules :: "flow_rule list"
  cs_latest_snapshot :: "flow_stats_snapshot option"
  cs_next_rule_id :: u64
  cs_vapi_control :: "'b option"
  cs_rule_id_map :: "string \<rightharpoonup> flow_rule_id"
  cs_pull_tx :: "nat chan option"

definition control_new :: "flow_rule list \<Rightarrow> 'b control_state" where
  "control_new initial_rules =
     \<lparr> cs_flow_rules = initial_rules, cs_latest_snapshot = None,
       cs_next_rule_id = word_of_nat (length initial_rules) + 1, cs_vapi_control = None,
       cs_rule_id_map = Map.empty, cs_pull_tx = None \<rparr>"

definition control_with_vapi :: "flow_rule list \<Rightarrow> 'b \<Rightarrow> 'b control_state" where
  "control_with_vapi initial_rules client =
     \<lparr> cs_flow_rules = initial_rules, cs_latest_snapshot = None,
       cs_next_rule_id = word_of_nat (length initial_rules) + 1, cs_vapi_control = Some client,
       cs_rule_id_map = Map.empty, cs_pull_tx = None \<rparr>"

definition update_snapshot :: "flow_stats_snapshot \<Rightarrow> 'b control_state \<Rightarrow> 'b control_state" where
  "update_snapshot snap st = st\<lparr>cs_latest_snapshot := Some snap\<rparr>"

section \<open>Messages\<close>

definition exists_msg :: "string \<Rightarrow> string" where
  "exists_msg n = ''flow rule '' @ quoted n @ '' already exists''"

definition missing_msg :: "string \<Rightarrow> string" where
  "missing_msg n = ''flow rule '' @ quoted n @ '' not found''"

definition rejected_msg :: "string \<Rightarrow> vapi_error \<Rightarrow> string" where
  "rejected_msg n e = ''backend rejected flow rule '' @ quoted n @ '': '' @ vapi_error_msg e"

definition undeleted_msg :: "string \<Rightarrow> vapi_error \<Rightarrow> string" where
  "undeleted_msg n e = ''backend failed to delete flow rule '' @ quoted n @ '': '' @ vapi_error_msg e"

section \<open>Handlers\<close>

definition handle_flow_rule_add ::
    "'b control_backend \<Rightarrow> flow_rule_add_params \<Rightarrow> 'b control_state \<Rightarrow> response \<times> 'b control_state" where
  "handle_flow_rule_add be params st =
     (let rule = \<lparr> fr_name = ap_name params, fr_fields = ap_fields params,
                   fr_max_keys = ap_max_keys params,
                   fr_eviction_policy = ap_eviction_policy params \<rparr>;
          rules = cs_flow_rules st
      in if list_ex (\<lambda>r. fr_name r = fr_name rule) rules
         then (response_err 6 (exists_msg (fr_name rule)), st)
         else case cs_vapi_control st of
           Some b \<Rightarrow>
             (case vapi_flow_rule_add be (fr_name rule) (fr_fields rule) (fr_max_keys rule)
                     (fr_eviction_policy rule) b of
                (Ok i, b') \<Rightarrow>
                  (response_ok (RFlowRuleId \<lparr> idd_id = hex16 (id_hi i) @ ''-'' @ hex16 (id_lo i) \<rparr>),
                   st\<lparr> cs_vapi_control := Some b',
                       cs_rule_id_map := (cs_rule_id_map st)(fr_name rule \<mapsto> i),
                       cs_flow_rules := rules @ [rule] \<rparr>)
              | (Err e, b') \<Rightarrow>
                  (response_err 7 (rejected_msg (ap_name params) e), st\<lparr>cs_vapi_control := Some b'\<rparr>))
         | None \<Rightarrow>
             (let seq = cs_next_rule_id st
              in (response_ok (RFlowRuleId \<lparr> idd_id = hex16 seq @ ''-'' @ hex16 0 \<rparr>),
                  st\<lparr> cs_flow_rules := rules @ [rule], cs_next_rule_id := seq + 1 \<rparr>)))"

definition rm_locally :: "string \<Rightarrow> 'b control_state \<Rightarrow> response \<times> 'b control_state" where
  "rm_locally name st =
     (response_ok_empty,
      st\<lparr> cs_flow_rules := filter (\<lambda>r. fr_name r \<noteq> name) (cs_flow_rules st),
          cs_rule_id_map := (cs_rule_id_map st)(name := None) \<rparr>)"

definition handle_flow_rule_rm ::
    "'b control_backend \<Rightarrow> flow_rule_rm_params \<Rightarrow> 'b control_state \<Rightarrow> response \<times> 'b control_state" where
  "handle_flow_rule_rm be params st =
     (if \<not> list_ex (\<lambda>r. fr_name r = rmp_name params) (cs_flow_rules st)
      then (response_err 3 (missing_msg (rmp_name params)), st)
      else case cs_vapi_control st of
        None \<Rightarrow> rm_locally (rmp_name params) st
      | Some b \<Rightarrow>
          (case cs_rule_id_map st (rmp_name params) of
             None \<Rightarrow> rm_locally (rmp_name params) st
           | Some rule_id \<Rightarrow>
               (case vapi_flow_rule_del be rule_id b of
                  (Err e, b') \<Rightarrow>
                    (response_err 7 (undeleted_msg (rmp_name params) e), st\<lparr>cs_vapi_control := Some b'\<rparr>)
                | (Ok _, b') \<Rightarrow> rm_locally (rmp_name params) (st\<lparr>cs_vapi_control := Some b'\<rparr>))))"

definition handle_flow_rule_list :: "'b control_state \<Rightarrow> response" where
  "handle_flow_rule_list st =
     response_ok (RFlowRuleList \<lparr> rl_rules = map flow_rule_data_from (cs_flow_rules st) \<rparr>)"

definition stats_named :: "flow_stats_snapshot option \<Rightarrow> string \<Rightarrow> flow_rule_stats option" where
  "stats_named snapshot n =
     Option.bind snapshot (\<lambda>snap. find (\<lambda>fr. rs_name fr = n) (sn_flow_rules snap))"

definition flow_entry_of :: "flow_stats \<Rightarrow> flow_entry_data" where
  "flow_entry_of f =
     \<lparr> ed_key = map debug_value (fl_key f),
       ed_packets = ctr_packets (fl_counters f),
       ed_bytes = ctr_bytes (fl_counters f),
       ed_first_seen_ns = ctr_first_seen_ns (fl_counters f),
       ed_last_seen_ns = ctr_last_seen_ns (fl_counters f) \<rparr>"

definition handle_flow_rule_show :: "flow_rule_show_params \<Rightarrow> 'b control_state \<Rightarrow> response" where
  "handle_flow_rule_show params st =
     (case find (\<lambda>r. fr_name r = shp_name params) (cs_flow_rules st) of
        None \<Rightarrow> response_err 3 (missing_msg (shp_name params))
      | Some rule \<Rightarrow>
          (let (counters, flows) =
             (case stats_named (cs_latest_snapshot st) (shp_name params) of
                Some frs \<Rightarrow>
                  (\<lparr> cd_packets = rc_packets (rs_counters frs), cd_bytes = rc_bytes (rs_counters frs),
                     cd_evictions = rc_evictions (rs_counters frs),
                     cd_drops = rc_drops (rs_counters frs) \<rparr>,
                   map flow_entry_of (rs_flows frs))
              | None \<Rightarrow> (\<lparr> cd_packets = 0, cd_bytes = 0, cd_evictions = 0, cd_drops = 0 \<rparr>, []))
           in response_ok (RFlowRuleDetail
                \<lparr> dd_name = fr_name rule, dd_fields = fr_fields rule, dd_max_keys = fr_max_keys rule,
                  dd_eviction_policy = fr_eviction_policy rule, dd_counters = counters,
                  dd_flows = flows \<rparr>)))"

definition stats_data_of :: "string \<Rightarrow> flow_rule_stats option \<Rightarrow> flow_rule_stats_data" where
  "stats_data_of name found =
     (case found of
        Some frs \<Rightarrow>
          \<lparr> sd_name = name, sd_packets = rc_packets (rs_counters frs),
            sd_bytes = rc_bytes (rs_counters frs), sd_evictions = rc_evictions (rs_counters frs),
            sd_drops = rc_drops (rs_counters frs),
            sd_active_flows = word_of_nat (length (rs_flows frs)) \<rparr>
      | None \<Rightarrow>
          \<lparr> sd_name = name, sd_packets = 0, sd_bytes = 0, sd_evictions = 0, sd_drops = 0,
            sd_active_flows = 0 \<rparr>)"

fun stats_show_loop ::
    "string option \<Rightarrow> flow_stats_snapshot option \<Rightarrow> flow_rule list \<Rightarrow> flow_rule_stats_data list" where
  "stats_show_loop name_filter snapshot [] = []"
| "stats_show_loop name_filter snapshot (rule # rules) =
     (if (case name_filter of Some n \<Rightarrow> fr_name rule \<noteq> n | None \<Rightarrow> False)
      then stats_show_loop name_filter snapshot rules
      else stats_data_of (fr_name rule) (stats_named snapshot (fr_name rule))
           # stats_show_loop name_filter snapshot rules)"

definition handle_stats_show :: "stats_show_params \<Rightarrow> 'b control_state \<Rightarrow> response" where
  "handle_stats_show params st =
     response_ok (RStatsShow
       \<lparr> ss_flow_rules = stats_show_loop (ssp_name params) (cs_latest_snapshot st) (cs_flow_rules st) \<rparr>)"

text \<open>
  A pull: \<open>reply_to\<close> names the reply channel that is sent to the poller, \<open>answer\<close> is what
  arrives on it within five seconds.
\<close>

definition handle_stats_pull ::
    "nat \<Rightarrow> flow_stats_snapshot option \<Rightarrow> 'b control_state \<Rightarrow> response \<times> 'b control_state" where
  "handle_stats_pull reply_to answer st =
     (case cs_pull_tx st of
        None \<Rightarrow> (response_err 8 ''stats pull not available (no poller connected)'', st)
      | Some pull_tx \<Rightarrow>
          (case mpsc_try_send reply_to pull_tx of
             (Err Full, ch) \<Rightarrow> (response_err 9 ''poller busy, try again later'', st\<lparr>cs_pull_tx := Some ch\<rparr>)
           | (Err Disconnected, ch) \<Rightarrow> (response_err 9 ''poller not running'', st\<lparr>cs_pull_tx := Some ch\<rparr>)
           | (Ok _, ch) \<Rightarrow>
               (case answer of
                  None \<Rightarrow> (response_err 10 ''pull timed out waiting for poller'', st\<lparr>cs_pull_tx := Some ch\<rparr>)
                | Some snapshot \<Rightarrow>
                    (response_ok (RStatsPull
                       \<lparr> sp_tick_id = sn_tick_id snapshot, sp_wall_clock_ns = sn_wall_clock_ns snapshot,
                         sp_stats = \<lparr> ss_flow_rules =
                           map (\<lambda>frs. stats_data_of (rs_name frs) (Some frs)) (sn_flow_rules snapshot) \<rparr> \<rparr>),
                     st\<lparr> cs_pull_tx := Some ch, cs_latest_snapshot := Some snapshot \<rparr>))))"

text \<open>What the poller does about one request: the reply channel's name and its answer.\<close>

record pull_world =
  pw_reply_to :: nat
  pw_answer :: "flow_stats_snapshot option"

definition handle_request ::
    "'b control_backend \<Rightarrow> pull_world \<Rightarrow> request \<Rightarrow> 'b control_state \<Rightarrow> response \<times> 'b control_state" where
  "handle_request be pw req st =
     (case req of
        FlowRuleAdd params \<Rightarrow> handle_flow_rule_add be params st
      | FlowRuleRm params \<Rightarrow> handle_flow_rule_rm be params st
      | FlowRuleList \<Rightarrow> (handle_flow_rule_list st, st)
      | FlowRuleShow params \<Rightarrow> (handle_flow_rule_show params st, st)
      | StatsShow params \<Rightarrow> (handle_stats_show params st, st)
      | StatsPull \<Rightarrow> handle_stats_pull (pw_reply_to pw) (pw_answer pw) st)"

section \<open>One connection\<close>

definition MAX_LINE :: nat where
  "MAX_LINE = 64 * 1024"

text \<open>
  \<open>read_line\<close> on a reader capped at \<open>MAX_LINE\<close> bytes: the bytes up to and with the first
  newline, or all there are. Invalid UTF-8 is a read error; deciding it, and parsing the
  JSON of a request, are parameters.
\<close>

fun upto_newline :: "string \<Rightarrow> string" where
  "upto_newline [] = []"
| "upto_newline (c # cs) = (if c = CHR 0x0A then [c] else c # upto_newline cs)"

definition read_line :: "string \<Rightarrow> string" where
  "read_line input = upto_newline (take MAX_LINE input)"

definition ends_with_newline :: "string \<Rightarrow> bool" where
  "ends_with_newline s \<longleftrightarrow> s \<noteq> [] \<and> last s = CHR 0x0A"

record json =
  js_utf8 :: "string \<Rightarrow> bool"
  js_parse :: "string \<Rightarrow> string + request"

text \<open>The reply written to one connection that sends \<open>input\<close>, if any.\<close>

definition serve_connection ::
    "json \<Rightarrow> 'b control_backend \<Rightarrow> pull_world \<Rightarrow> string \<Rightarrow> 'b control_state \<Rightarrow>
     response option \<times> 'b control_state" where
  "serve_connection js be pw input st =
     (let line = read_line input
      in if line = [] then (None, st)
         else if \<not> js_utf8 js line then (None, st)
         else if MAX_LINE \<le> length line \<and> \<not> ends_with_newline line
           then (Some (response_err (- 1) ''request too large''), st)
         else case js_parse js line of
           Ok req \<Rightarrow> (case handle_request be pw req st of (resp, st') \<Rightarrow> (Some resp, st'))
         | Err e \<Rightarrow> (Some (response_err (- 1) (''invalid request: '' @ e)), st))"

section \<open>The invariant of the table\<close>

definition ctl_inv :: "'b control_state \<Rightarrow> bool" where
  "ctl_inv st \<longleftrightarrow> distinct (map fr_name (cs_flow_rules st)) \<and>
     dom (cs_rule_id_map st) \<subseteq> fr_name ` set (cs_flow_rules st)"

definition rule_of :: "flow_rule_add_params \<Rightarrow> flow_rule" where
  "rule_of params =
     \<lparr> fr_name = ap_name params, fr_fields = ap_fields params, fr_max_keys = ap_max_keys params,
       fr_eviction_policy = ap_eviction_policy params \<rparr>"

definition params_of :: "flow_rule \<Rightarrow> flow_rule_add_params" where
  "params_of r =
     \<lparr> ap_name = fr_name r, ap_fields = fr_fields r, ap_max_keys = fr_max_keys r,
       ap_eviction_policy = fr_eviction_policy r \<rparr>"

lemma rule_of_simps [simp]:
  "fr_name (rule_of p) = ap_name p" "rule_of (params_of r) = r" "ap_name (params_of r) = fr_name r"
  by (simp_all add: rule_of_def params_of_def)

text \<open>The answer of the backend to an addition and to a deletion, with the state it is left in.\<close>

definition backend_add ::
    "'b control_backend \<Rightarrow> flow_rule_add_params \<Rightarrow> 'b \<Rightarrow> (vapi_error + flow_rule_id) \<times> 'b" where
  "backend_add be p b =
     vapi_flow_rule_add be (ap_name p) (ap_fields p) (ap_max_keys p) (ap_eviction_policy p) b"

text \<open>The four outcomes of an addition and the four of a removal.\<close>

lemma add_cases:
  obtains (taken) "ap_name p \<in> fr_name ` set (cs_flow_rules st)"
      "handle_flow_rule_add be p st = (response_err 6 (exists_msg (ap_name p)), st)"
  | (local) "ap_name p \<notin> fr_name ` set (cs_flow_rules st)" "cs_vapi_control st = None"
      "handle_flow_rule_add be p st =
        (response_ok (RFlowRuleId \<lparr> idd_id = display_id \<lparr> id_hi = cs_next_rule_id st, id_lo = 0 \<rparr> \<rparr>),
         st\<lparr> cs_flow_rules := cs_flow_rules st @ [rule_of p], cs_next_rule_id := cs_next_rule_id st + 1 \<rparr>)"
  | (backend) b i b' where "ap_name p \<notin> fr_name ` set (cs_flow_rules st)"
      "cs_vapi_control st = Some b" "backend_add be p b = (Ok i, b')"
      "handle_flow_rule_add be p st =
        (response_ok (RFlowRuleId \<lparr> idd_id = display_id i \<rparr>),
         st\<lparr> cs_vapi_control := Some b', cs_rule_id_map := (cs_rule_id_map st)(ap_name p \<mapsto> i),
             cs_flow_rules := cs_flow_rules st @ [rule_of p] \<rparr>)"
  | (rejected) b e b' where "ap_name p \<notin> fr_name ` set (cs_flow_rules st)"
      "cs_vapi_control st = Some b" "backend_add be p b = (Err e, b')"
      "handle_flow_rule_add be p st =
        (response_err 7 (rejected_msg (ap_name p) e), st\<lparr>cs_vapi_control := Some b'\<rparr>)"
proof (cases "ap_name p \<in> fr_name ` set (cs_flow_rules st)")
  case True
  then show ?thesis by (intro taken) (auto simp: handle_flow_rule_add_def Let_def list_ex_name)
next
  case fresh: False
  show ?thesis
  proof (cases "cs_vapi_control st")
    case None
    with fresh show ?thesis
      by (intro local) (simp_all add: handle_flow_rule_add_def Let_def list_ex_name display_id_def rule_of_def)
  next
    case (Some b)
    obtain r b' where rb: "backend_add be p b = (r, b')" by fastforce
    show ?thesis
    proof (cases r)
      case (Inl e)
      with fresh Some rb show ?thesis
        by (intro rejected [of b e b'])
          (simp_all add: handle_flow_rule_add_def Let_def list_ex_name backend_add_def)
    next
      case (Inr i)
      with fresh Some rb show ?thesis
        by (intro backend [of b i b'])
          (simp_all add: handle_flow_rule_add_def Let_def list_ex_name backend_add_def rule_of_def
            display_id_def)
    qed
  qed
qed

lemma rm_cases:
  obtains (missing) "rmp_name p \<notin> fr_name ` set (cs_flow_rules st)"
      "handle_flow_rule_rm be p st = (response_err 3 (missing_msg (rmp_name p)), st)"
  | (unasked) "rmp_name p \<in> fr_name ` set (cs_flow_rules st)"
      "cs_vapi_control st = None \<or> cs_rule_id_map st (rmp_name p) = None"
      "handle_flow_rule_rm be p st = rm_locally (rmp_name p) st"
  | (deleted) b i b' where "rmp_name p \<in> fr_name ` set (cs_flow_rules st)"
      "cs_vapi_control st = Some b" "cs_rule_id_map st (rmp_name p) = Some i"
      "vapi_flow_rule_del be i b = (Ok (), b')"
      "handle_flow_rule_rm be p st = rm_locally (rmp_name p) (st\<lparr>cs_vapi_control := Some b'\<rparr>)"
  | (undeleted) b i e b' where "rmp_name p \<in> fr_name ` set (cs_flow_rules st)"
      "cs_vapi_control st = Some b" "cs_rule_id_map st (rmp_name p) = Some i"
      "vapi_flow_rule_del be i b = (Err e, b')"
      "handle_flow_rule_rm be p st =
        (response_err 7 (undeleted_msg (rmp_name p) e), st\<lparr>cs_vapi_control := Some b'\<rparr>)"
proof (cases "rmp_name p \<in> fr_name ` set (cs_flow_rules st)")
  case False
  then show ?thesis by (intro missing) (auto simp: handle_flow_rule_rm_def list_ex_name)
next
  case here: True
  show ?thesis
  proof (cases "cs_vapi_control st = None \<or> cs_rule_id_map st (rmp_name p) = None")
    case True
    with here show ?thesis
      by (intro unasked) (auto simp: handle_flow_rule_rm_def list_ex_name split: option.splits)
  next
    case False
    then obtain b i where bi: "cs_vapi_control st = Some b" "cs_rule_id_map st (rmp_name p) = Some i"
      by auto
    obtain r b' where rb: "vapi_flow_rule_del be i b = (r, b')" by fastforce
    show ?thesis
    proof (cases r)
      case (Inl e)
      with here rb bi show ?thesis
        by (intro undeleted [of b i e b']) (auto simp: handle_flow_rule_rm_def list_ex_name)
    next
      case (Inr u)
      with here rb bi show ?thesis
        by (intro deleted [of b i b']) (auto simp: handle_flow_rule_rm_def list_ex_name)
    qed
  qed
qed

lemma add_inv: "ctl_inv st \<Longrightarrow> ctl_inv (snd (handle_flow_rule_add be p st))"
  by (cases rule: add_cases [where p = p and st = st and be = be]) (auto simp: ctl_inv_def)

lemma rm_locally_inv: "ctl_inv st \<Longrightarrow> ctl_inv (snd (rm_locally n st))"
  by (auto simp: ctl_inv_def rm_locally_def distinct_map_filter)

lemma rm_inv: "ctl_inv st \<Longrightarrow> ctl_inv (snd (handle_flow_rule_rm be p st))"
proof (cases rule: rm_cases [where p = p and st = st and be = be])
  case (deleted b i b')
  moreover assume "ctl_inv st"
  then have "ctl_inv (st\<lparr>cs_vapi_control := Some b'\<rparr>)" by (simp add: ctl_inv_def)
  ultimately show ?thesis by (simp add: rm_locally_inv)
qed (simp_all add: ctl_inv_def rm_locally_inv [unfolded ctl_inv_def])

lemma pull_inv: "ctl_inv st \<Longrightarrow> ctl_inv (snd (handle_stats_pull reply_to answer st))"
  by (auto simp: ctl_inv_def handle_stats_pull_def
      split: option.splits prod.splits sum.splits try_send_error.splits)

lemma request_inv: "ctl_inv st \<Longrightarrow> ctl_inv (snd (handle_request be pw req st))"
  by (cases req) (simp_all add: handle_request_def add_inv rm_inv pull_inv)

section \<open>The table as a rule store\<close>

definition ctl_add :: "'b control_backend \<Rightarrow> flow_rule \<Rightarrow> 'b control_state \<Rightarrow> bool \<times> 'b control_state" where
  "ctl_add be r st = map_prod rp_ok id (handle_flow_rule_add be (params_of r) st)"

definition ctl_remove :: "'b control_backend \<Rightarrow> string \<Rightarrow> 'b control_state \<Rightarrow> bool \<times> 'b control_state" where
  "ctl_remove be n st = map_prod rp_ok id (handle_flow_rule_rm be \<lparr> rmp_name = n \<rparr> st)"

definition ctl_lookup :: "'b control_state \<Rightarrow> string \<Rightarrow> flow_rule option" where
  "ctl_lookup st n = find (\<lambda>r. fr_name r = n) (cs_flow_rules st)"

lemma ctl_lookup_eq: "ctl_lookup st = rule_named (cs_flow_rules st)"
  by (rule ext) (simp add: ctl_lookup_def rule_named_def)

interpretation ctl: rule_store "ctl_add be" "ctl_remove be" ctl_lookup ctl_inv
  for be :: "'b control_backend"
proof (unfold_locales, goal_cases)
  case (1 s r)
  then show ?case by (simp add: ctl_add_def add_inv)
next
  case (2 s n)
  then show ?case by (simp add: ctl_remove_def rm_inv)
next
  case (3 s r)
  then show ?case
    by (cases rule: add_cases [where p = "params_of r" and st = s and be = be]) (auto simp: ctl_add_def ctl_lookup_eq rule_named_None)
next
  case (4 s n)
  then show ?case
    by (cases rule: rm_cases [where p = "\<lparr> rmp_name = n \<rparr>" and st = s and be = be])
      (auto simp: ctl_remove_def ctl_lookup_eq rule_named_None rm_locally_def)
next
  case (5 s r)
  then show ?case
    by (cases rule: add_cases [where p = "params_of r" and st = s and be = be]) (auto simp: ctl_add_def ctl_lookup_eq rule_named_push)
next
  case (6 s n)
  then show ?case
    by (cases rule: rm_cases [where p = "\<lparr> rmp_name = n \<rparr>" and st = s and be = be])
      (auto simp: ctl_remove_def ctl_lookup_eq rm_locally_def rule_named_filter)
qed

section \<open>Steps of the shared state\<close>

text \<open>
  What changes the shared state: a request on the control socket, the thread that forwards
  snapshots, and the poller taking a pull request or going away.
\<close>

inductive ctl_step :: "'b control_backend \<Rightarrow> 'b control_state \<Rightarrow> 'b control_state \<Rightarrow> bool"
  for be where
  request: "handle_request be pw req st = (resp, st') \<Longrightarrow> ctl_step be st st'"
| snapshot: "ctl_step be st (update_snapshot snap st)"
| pull_taken: "cs_pull_tx st = Some ch \<Longrightarrow> mpsc_try_recv ch = (taken, ch') \<Longrightarrow>
    ctl_step be st (st\<lparr>cs_pull_tx := Some ch'\<rparr>)"
| poller_gone: "cs_pull_tx st = Some ch \<Longrightarrow>
    ctl_step be st (st\<lparr>cs_pull_tx := Some (drop_receiver ch)\<rparr>)"

abbreviation ctl_reach :: "'b control_backend \<Rightarrow> 'b control_state \<Rightarrow> 'b control_state \<Rightarrow> bool" where
  "ctl_reach be \<equiv> reaches (ctl_step be)"

lemma step_inv: "ctl_step be st st' \<Longrightarrow> ctl_inv st \<Longrightarrow> ctl_inv st'"
proof (induction rule: ctl_step.induct)
  case (request pw req st resp st')
  then show ?case using request_inv [of st be pw req] by simp
qed (auto simp: ctl_inv_def update_snapshot_def)

interpretation ctl_steps: step_invariant "ctl_step be" ctl_inv for be
  by unfold_locales (rule step_inv)

lemma start_inv:
  "distinct (map fr_name rules) \<Longrightarrow> ctl_inv (control_new rules)"
  "distinct (map fr_name rules) \<Longrightarrow> ctl_inv (control_with_vapi rules b)"
  by (auto simp: ctl_inv_def control_new_def control_with_vapi_def)

section \<open>Sequences of requests\<close>

fun run_requests ::
    "'b control_backend \<Rightarrow> (pull_world \<times> request) list \<Rightarrow> 'b control_state \<Rightarrow>
     response list \<times> 'b control_state" where
  "run_requests be [] st = ([], st)"
| "run_requests be ((pw, req) # reqs) st =
     (case handle_request be pw req st of
        (resp, st1) \<Rightarrow> (case run_requests be reqs st1 of (resps, st2) \<Rightarrow> (resp # resps, st2)))"

fun issued_id :: "response \<Rightarrow> string list" where
  "issued_id resp =
     (case rp_data resp of Some (RFlowRuleId d) \<Rightarrow> [idd_id d] | _ \<Rightarrow> [])"

definition issued :: "response list \<Rightarrow> string list" where
  "issued resps = concat (map issued_id resps)"

definition nth_local_id :: "u64 \<Rightarrow> nat \<Rightarrow> string" where
  "nth_local_id first n = display_id \<lparr> id_hi = first + word_of_nat n, id_lo = 0 \<rparr>"

lemma local_request:
  assumes "cs_vapi_control st = None" "handle_request be pw req st = (resp, st')"
  shows "cs_vapi_control st' = None \<and>
    ((issued_id resp = [] \<and> cs_next_rule_id st' = cs_next_rule_id st) \<or>
     (issued_id resp = [nth_local_id (cs_next_rule_id st) 0] \<and>
      cs_next_rule_id st' = cs_next_rule_id st + 1))"
proof (cases req)
  case (FlowRuleAdd p)
  then show ?thesis
    using assms
    by (cases rule: add_cases [where p = p and st = st and be = be])
      (auto simp: handle_request_def response_defs nth_local_id_def)
next
  case (FlowRuleRm p)
  then show ?thesis
    using assms
    by (auto simp: handle_request_def handle_flow_rule_rm_def rm_locally_def response_defs
        split: if_splits)
next
  case StatsPull
  then show ?thesis
    using assms
    by (auto simp: handle_request_def handle_stats_pull_def response_defs
        split: option.splits prod.splits sum.splits try_send_error.splits)
qed (use assms in \<open>auto simp: handle_request_def handle_flow_rule_list_def handle_stats_show_def
       handle_flow_rule_show_def response_defs split: option.splits prod.splits\<close>)

lemma local_ids:
  "cs_vapi_control st = None \<Longrightarrow> run_requests be reqs st = (resps, st') \<Longrightarrow>
   issued resps = map (nth_local_id (cs_next_rule_id st)) [0..<length (issued resps)]"
proof (induction reqs arbitrary: st resps st')
  case Nil
  then show ?case by (simp add: issued_def)
next
  case (Cons r reqs)
  obtain pw req where r: "r = (pw, req)" by (cases r)
  obtain resp st1 where h: "handle_request be pw req st = (resp, st1)" by fastforce
  obtain resps1 st2 where rest: "run_requests be reqs st1 = (resps1, st2)" by fastforce
  have resps: "resps = resp # resps1" using Cons.prems(2) r h rest by auto
  note step = local_request [OF Cons.prems(1) h]
  have ih: "issued resps1 = map (nth_local_id (cs_next_rule_id st1)) [0..<length (issued resps1)]"
    by (rule Cons.IH [OF _ rest]) (use step in simp)
  have shift: "nth_local_id (c + 1) = (\<lambda>n. nth_local_id c (Suc n))" for c
    by (rule ext) (simp add: nth_local_id_def add.assoc)
  from step show ?case
  proof (elim conjE disjE)
    assume "issued_id resp = []" "cs_next_rule_id st1 = cs_next_rule_id st"
    then show ?thesis using ih by (simp add: issued_def resps del: issued_id.simps)
  next
    assume new: "issued_id resp = [nth_local_id (cs_next_rule_id st) 0]"
        "cs_next_rule_id st1 = cs_next_rule_id st + 1"
    have all: "issued resps = nth_local_id (cs_next_rule_id st) 0 # issued resps1"
      using new by (simp add: issued_def resps del: issued_id.simps)
    have "issued resps1 = map (\<lambda>n. nth_local_id (cs_next_rule_id st) (Suc n)) [0..<length (issued resps1)]"
      using ih by (simp only: new(2) shift)
    also have "\<dots> = map (nth_local_id (cs_next_rule_id st)) (map Suc [0..<length (issued resps1)])"
      by simp
    finally have "issued resps1 =
        map (nth_local_id (cs_next_rule_id st)) [Suc 0..<Suc (length (issued resps1))]"
      by (simp only: map_Suc_upt)
    then show ?thesis
      unfolding all by (simp add: upt_conv_Cons del: upt_Suc) 
  qed
qed

section \<open>The contract of the server\<close>

text \<open>
  What a client relies on: finite maps from names to rules and to backend identifiers, the
  backend behind them, the next local identifier, the latest snapshot and the poller's channel
  for pull requests. The order of the rules is left out.
\<close>

record 'b registry =
  rg_rules :: "string \<rightharpoonup> flow_rule"
  rg_ids :: "string \<rightharpoonup> flow_rule_id"
  rg_backend :: "'b option"
  rg_next :: u64
  rg_snapshot :: "flow_stats_snapshot option"
  rg_pull :: "nat chan option"

definition registry_of :: "'b control_state \<Rightarrow> 'b registry" where
  "registry_of st =
     \<lparr> rg_rules = rule_named (cs_flow_rules st), rg_ids = cs_rule_id_map st,
       rg_backend = cs_vapi_control st, rg_next = cs_next_rule_id st,
       rg_snapshot = cs_latest_snapshot st, rg_pull = cs_pull_tx st \<rparr>"






lemma registry_simps [simp]:
  "rg_rules (registry_of st) = rule_named (cs_flow_rules st)" "rg_ids (registry_of st) = cs_rule_id_map st"
  "rg_backend (registry_of st) = cs_vapi_control st" "rg_next (registry_of st) = cs_next_rule_id st"
  "rg_snapshot (registry_of st) = cs_latest_snapshot st" "rg_pull (registry_of st) = cs_pull_tx st"
  by (simp_all add: registry_of_def)









section \<open>Properties\<close>

text \<open>A backend that numbers its rules, for the concrete instances below.\<close>

definition counting_backend :: "u64 control_backend" where
  "counting_backend =
     \<lparr> cb_add = (\<lambda>name flds n max_keys eviction b. ((0, b, 1), b + 1)),
       cb_del = (\<lambda>hi lo b. (0, b)) \<rparr>"

definition sample_rule :: "string \<Rightarrow> flow_rule" where
  "sample_rule n = \<lparr> fr_name = n, fr_fields = [SrcIp], fr_max_keys = 10, fr_eviction_policy = LruDrop \<rparr>"

text \<open>
  C5. In every state the server can reach from rules with pairwise different names, whatever
  the backend answers and however requests, snapshots and pulls interleave, rule names stay
  pairwise different and every recorded backend identifier belongs to a rule that exists.
\<close>

theorem control_reachable:
  assumes "distinct (map fr_name rules)"
    and "ctl_reach be (control_with_vapi rules b) st \<or> ctl_reach be (control_new rules) st"
  shows "distinct (map fr_name (cs_flow_rules st)) \<and>
    dom (cs_rule_id_map st) \<subseteq> fr_name ` set (cs_flow_rules st)"
proof -
  have "ctl_inv st"
    using assms(2) by (elim disjE) (erule ctl_steps.reached [OF start_inv(2) [OF assms(1)]], erule ctl_steps.reached [OF start_inv(1) [OF assms(1)]])
  then show ?thesis by (simp add: ctl_inv_def)
qed

theorem control_reachable_witness:
  "distinct (map fr_name (cs_flow_rules (snd
     (handle_request counting_backend \<lparr> pw_reply_to = 0, pw_answer = None \<rparr>
       (FlowRuleAdd (params_of (sample_rule ''b''))) (control_with_vapi [sample_rule ''a''] 5)))))"
proof -
  let ?s0 = "control_with_vapi [sample_rule ''a''] 5 :: u64 control_state"
  let ?r = "handle_request counting_backend \<lparr> pw_reply_to = 0, pw_answer = None \<rparr>
    (FlowRuleAdd (params_of (sample_rule ''b''))) ?s0"
  obtain resp st' where r: "?r = (resp, st')" by (rule prod.exhaust)
  then have "ctl_step counting_backend ?s0 (snd ?r)" by (metis ctl_step.request snd_conv)
  then have "ctl_reach counting_backend ?s0 (snd ?r)" by (blast intro: reaches.intros)
  then show ?thesis
    using control_reachable [of "[sample_rule ''a'']" counting_backend 5 "snd ?r"] by simp
qed

text \<open>
  The rule store's view: over any history of additions and removals, what is found under a
  name is the map built by the operations that were answered with success, in their order.
\<close>

lemma control_map_history:
  "ctl_inv st \<Longrightarrow> ctl_lookup (ctl.run be ops st) = fold abs_apply (ctl.accepted be ops st) (ctl_lookup st)"
  by (rule ctl.run_refines)



text \<open>
  C23. An addition succeeds exactly when no rule has the name and, with a backend, the backend
  accepts it; a success appends the rule and a refusal leaves the table as it is, also when
  the backend has been asked. Nothing else is checked: neither the name's shape, nor the
  fields, nor the budget.
\<close>

theorem add_exact:
  "case handle_flow_rule_add be p st of (resp, st') \<Rightarrow>
     (rp_ok resp \<longleftrightarrow> ap_name p \<notin> fr_name ` set (cs_flow_rules st) \<and>
        (case cs_vapi_control st of None \<Rightarrow> True | Some b \<Rightarrow> \<exists>i. fst (backend_add be p b) = Ok i)) \<and>
     cs_flow_rules st' = (if rp_ok resp then cs_flow_rules st @ [rule_of p] else cs_flow_rules st)"
  by (cases rule: add_cases [where p = p and st = st and be = be]) auto

text \<open>What the backend answers to a removal, when it is asked at all: with an identifier recorded.\<close>

definition backend_del ::
    "'b control_backend \<Rightarrow> string \<Rightarrow> 'b control_state \<Rightarrow> ((vapi_error + unit) \<times> 'b) option" where
  "backend_del be n st =
     (case (cs_vapi_control st, cs_rule_id_map st n) of
        (Some b, Some i) \<Rightarrow> Some (vapi_flow_rule_del be i b)
      | _ \<Rightarrow> None)"

text \<open>
  C24. A removal asks the backend exactly when a rule has the name and a backend and an
  identifier are there. It succeeds exactly when a rule has the name and the backend, if
  asked, deleted it; it then takes away the rules of that name, keeps the others in their
  order and forgets the identifier. It fails with code 3 when no rule has the name and with
  code 7 when the backend refused, and then leaves rules and identifiers alone. The backend
  is left as its answer left it, and nothing else of the state changes.
\<close>

theorem rm_exact:
  "case handle_flow_rule_rm be p st of (resp, st') \<Rightarrow>
     let n = rmp_name p;
         here = n \<in> fr_name ` set (cs_flow_rules st)
     in (rp_ok resp \<longleftrightarrow> here \<and> (case backend_del be n st of Some (Err e, b') \<Rightarrow> False | _ \<Rightarrow> True)) \<and>
        map_option er_code (rp_error resp) =
          (if rp_ok resp then None else if here then Some 7 else Some 3) \<and>
        st' = st\<lparr> cs_flow_rules := (if rp_ok resp then filter (\<lambda>r. fr_name r \<noteq> n) (cs_flow_rules st)
                                   else cs_flow_rules st),
                  cs_rule_id_map := (if rp_ok resp then (cs_rule_id_map st)(n := None) else cs_rule_id_map st),
                  cs_vapi_control := (case backend_del be n st of
                    Some (answer, b') \<Rightarrow> if here then Some b' else cs_vapi_control st
                  | None \<Rightarrow> cs_vapi_control st) \<rparr>"
  by (cases rule: rm_cases [where p = p and st = st and be = be])
    (auto simp: rm_locally_def response_defs backend_del_def split: option.splits prod.splits sum.splits)

text \<open>The error codes a request can be answered with.\<close>

fun codes_of :: "request \<Rightarrow> int set" where
  "codes_of (FlowRuleAdd _) = {6, 7}"
| "codes_of (FlowRuleRm _) = {3, 7}"
| "codes_of FlowRuleList = {}"
| "codes_of (FlowRuleShow _) = {3}"
| "codes_of (StatsShow _) = {}"
| "codes_of StatsPull = {8, 9, 10}"

text \<open>
  Every response is a proper envelope, with data only on success and an error exactly on
  failure, and the error code is one of those of its request.
\<close>

theorem response_codes:
  "case handle_request be pw req st of (resp, st') \<Rightarrow>
     envelope_ok resp \<and>
     (rp_ok resp \<or> (\<exists>c m. resp = response_err c m \<and> c \<in> codes_of req))"
proof (cases req)
  case (FlowRuleAdd p)
  then show ?thesis
    by (cases rule: add_cases [where p = p and st = st and be = be]) (auto simp: handle_request_def)
next
  case (FlowRuleRm p)
  then show ?thesis
    by (cases rule: rm_cases [where p = p and st = st and be = be])
      (auto simp: handle_request_def rm_locally_def)
next
  case (FlowRuleShow p)
  then show ?thesis
    by (auto simp: handle_request_def handle_flow_rule_show_def split: option.splits prod.splits)
next
  case StatsPull
  then show ?thesis
    by (auto simp: handle_request_def handle_stats_pull_def
        split: option.splits prod.splits sum.splits try_send_error.splits)
qed (auto simp: handle_request_def handle_flow_rule_list_def handle_stats_show_def)

text \<open>
  Without a backend, the identifiers handed out over any sequence of requests are the
  consecutive ones from the state's counter on, in order, each the text of its number: as
  long as fewer than 2^64 are issued, no two rules get the same.
\<close>

theorem local_ids_consecutive:
  assumes "cs_vapi_control st = None"
  shows "issued (fst (run_requests be reqs st)) =
      map (nth_local_id (cs_next_rule_id st)) [0..<length (issued (fst (run_requests be reqs st)))] \<and>
    (length (issued (fst (run_requests be reqs st))) \<le> 2 ^ 64 \<longrightarrow>
     distinct (issued (fst (run_requests be reqs st))))"
proof -
  obtain resps st' where r: "run_requests be reqs st = (resps, st')" by fastforce
  have ids: "issued resps = map (nth_local_id (cs_next_rule_id st)) [0..<length (issued resps)]"
    by (rule local_ids [OF assms r])
  have "distinct (issued resps)" if small: "length (issued resps) \<le> 2 ^ 64"
  proof -
    have "inj_on (nth_local_id c) {0..<length (issued resps)}" for c
    proof (rule inj_onI)
      fix m n
      assume "m \<in> {0..<length (issued resps)}" "n \<in> {0..<length (issued resps)}"
        and "nth_local_id c m = nth_local_id c n"
      then have "(word_of_nat m :: u64) = word_of_nat n" "m < 2 ^ 64" "n < 2 ^ 64"
        using small by (auto simp: nth_local_id_def display_id_inj)
      then have "unat (word_of_nat m :: u64) = unat (word_of_nat n :: u64)" "m < 2 ^ 64" "n < 2 ^ 64"
        by simp_all
      then show "m = n" by (simp add: unat_of_nat take_bit_eq_mod)
    qed
    then have "distinct (map (nth_local_id (cs_next_rule_id st)) [0..<length (issued resps)])"
      by (simp add: distinct_map)
    then show ?thesis by (simp only: ids [symmetric])
  qed
  then show ?thesis using ids by (simp add: r)
qed

theorem local_ids_consecutive_witness:
  "issued (fst (run_requests counting_backend
      [(\<lparr> pw_reply_to = 0, pw_answer = None \<rparr>, FlowRuleAdd (params_of (sample_rule ''a''))),
       (\<lparr> pw_reply_to = 0, pw_answer = None \<rparr>, FlowRuleAdd (params_of (sample_rule ''a''))),
       (\<lparr> pw_reply_to = 0, pw_answer = None \<rparr>, FlowRuleAdd (params_of (sample_rule ''b'')))]
      (control_new []))) = [nth_local_id 1 0, nth_local_id 1 1]"
  (is "issued (fst (run_requests _ ?reqs _)) = _")
proof -
  have "length (issued (fst (run_requests counting_backend ?reqs (control_new [])))) = 2"
    by (simp add: handle_request_def handle_flow_rule_add_def control_new_def response_defs
        params_of_def sample_rule_def issued_def Let_def)
  then show ?thesis
    using local_ids_consecutive [of "control_new [] :: u64 control_state" counting_backend ?reqs]
    by (simp add: control_new_def upt_rec)
qed

text \<open>
  A client that has just added a rule sees it: \<open>show\<close> answers with the fields, the bound
  and the policy it sent, and \<open>list\<close> ends with it; once it is removed, \<open>show\<close> answers not
  found.
\<close>

theorem read_your_writes:
  assumes "handle_flow_rule_add be p st = (resp, st')" "rp_ok resp"
  shows "(\<exists>counters flows. handle_flow_rule_show \<lparr> shp_name = ap_name p \<rparr> st' =
      response_ok (RFlowRuleDetail
        \<lparr> dd_name = ap_name p, dd_fields = ap_fields p, dd_max_keys = ap_max_keys p,
          dd_eviction_policy = ap_eviction_policy p, dd_counters = counters, dd_flows = flows \<rparr>)) \<and>
    (\<forall>resp2 st2. handle_flow_rule_rm be \<lparr> rmp_name = ap_name p \<rparr> st' = (resp2, st2) \<and> rp_ok resp2 \<longrightarrow>
      handle_flow_rule_show \<lparr> shp_name = ap_name p \<rparr> st2 = response_err 3 (missing_msg (ap_name p)))"
proof -
  have new: "cs_flow_rules st' = cs_flow_rules st @ [rule_of p]"
      "ap_name p \<notin> fr_name ` set (cs_flow_rules st)"
    using assms by (cases rule: add_cases [where p = p and st = st and be = be]; auto)+
  have found: "find (\<lambda>r. fr_name r = ap_name p) (cs_flow_rules st') = Some (rule_of p)"
  proof -
    have "find (\<lambda>r. fr_name r = ap_name p) (cs_flow_rules st) = None"
      using new(2) by (simp add: find_None_iff_all) (metis imageI)
    then show ?thesis by (simp add: new(1) find_append)
  qed
  have "find (\<lambda>r. fr_name r = ap_name p) (cs_flow_rules st2) = None"
    if rm: "handle_flow_rule_rm be \<lparr> rmp_name = ap_name p \<rparr> st' = (resp2, st2)" "rp_ok resp2"
    for resp2 st2
    using rm
    by (cases rule: rm_cases [where p = "\<lparr> rmp_name = ap_name p \<rparr>" and st = st' and be = be])
      (auto simp: rm_locally_def find_None_iff_all)
  then show ?thesis
    using found by (auto simp: handle_flow_rule_show_def rule_of_def split: prod.splits)
qed

theorem read_your_writes_witness:
  "\<exists>counters flows. handle_flow_rule_show \<lparr> shp_name = ''a'' \<rparr>
      (snd (handle_flow_rule_add counting_backend (params_of (sample_rule ''a'')) (control_with_vapi [] 5))) =
    response_ok (RFlowRuleDetail
      \<lparr> dd_name = ''a'', dd_fields = [SrcIp], dd_max_keys = 10, dd_eviction_policy = LruDrop,
        dd_counters = counters, dd_flows = flows \<rparr>)"
proof -
  let ?r = "handle_flow_rule_add counting_backend (params_of (sample_rule ''a''))
    (control_with_vapi [] 5 :: u64 control_state)"
  have "rp_ok (fst ?r)"
    by (simp add: handle_flow_rule_add_def vapi_flow_rule_add_def counting_backend_def
        control_with_vapi_def sample_rule_def params_of_def Let_def)
  then show ?thesis
    using read_your_writes [of counting_backend "params_of (sample_rule ''a'')"
        "control_with_vapi [] 5 :: u64 control_state" "fst ?r" "snd ?r"]
    by (simp add: params_of_def sample_rule_def)
qed

end
