(* ===== verification/UnixPath.thy ===== *)
theory UnixPath
  imports RustStr
begin

text \<open>
  What the program uses of \<open>std::path::Path\<close> on Unix: \<open>parent\<close> and \<open>file_name\<close>, as the
  standard library computes them from the end of the text, and its components. Repeated
  separators and \<open>.\<close> components vanish, except for a \<open>.\<close> at the start.
\<close>

abbreviation slash :: char where
  "slash \<equiv> CHR 0x2F"

datatype component = RootDir | CurDir | ParentDir | Normal string

definition named :: "string \<Rightarrow> component" where
  "named piece = (if piece = ''..'' then ParentDir else Normal piece)"

definition kept :: "string \<Rightarrow> bool" where
  "kept piece \<longleftrightarrow> piece \<noteq> [] \<and> piece \<noteq> ''.''"

definition kept_pieces :: "string \<Rightarrow> string list" where
  "kept_pieces p = filter kept (split_on slash p)"

definition leading :: "string \<Rightarrow> component list" where
  "leading p =
     (if take 1 p = [slash] then [RootDir]
      else if p = ''.'' \<or> take 2 p = [CHR ''.'', slash] then [CurDir] else [])"

definition components :: "string \<Rightarrow> component list" where
  "components p = leading p @ map named (kept_pieces p)"

section \<open>From the end\<close>

text \<open>
  The bytes before the body are a root separator or a leading \<open>.\<close>; the body is read backwards.
  \<open>trim_back\<close> drops the pieces at its end that are no components.
\<close>

definition before_body :: "string \<Rightarrow> nat" where
  "before_body p = length (leading p)"

definition back_piece :: "string \<Rightarrow> string" where
  "back_piece r = takeWhile (\<lambda>c. c \<noteq> slash) r"

definition drop_piece :: "string \<Rightarrow> string" where
  "drop_piece r = drop (length (back_piece r) + 1) r"

function trim_back :: "string \<Rightarrow> string" where
  "trim_back r =
     (if r = [] then []
      else if kept (rev (back_piece r)) then r
      else trim_back (drop_piece r))"
  by pat_completeness auto
termination by (relation "measure length") (auto simp: drop_piece_def)

declare trim_back.simps [simp del]

lemma trim_back_Nil [simp]: "trim_back [] = []"
  by (simp add: trim_back.simps)

definition body_back :: "string \<Rightarrow> string" where
  "body_back p = trim_back (rev (drop (before_body p) p))"

definition path_file_name :: "string \<Rightarrow> string option" where
  "path_file_name p =
     (case body_back p of
        [] \<Rightarrow> None
      | r \<Rightarrow> if rev (back_piece r) = ''..'' then None else Some (rev (back_piece r)))"

definition path_parent :: "string \<Rightarrow> string option" where
  "path_parent p =
     (case body_back p of
        [] \<Rightarrow> (if leading p = [CurDir] then Some [] else None)
      | r \<Rightarrow> Some (take (before_body p) p @ rev (trim_back (drop_piece r))))"

section \<open>The pieces of a text read backwards\<close>

lemma back_piece_cases:
  obtains (last) "drop_piece r = []" "slash \<notin> set r" "back_piece r = r"
  | (more) "r = back_piece r @ slash # drop_piece r" "slash \<notin> set (back_piece r)"
proof (cases "slash \<in> set r")
  case True
  then obtain a b where "r = a @ slash # b" "slash \<notin> set a" by (meson split_list_first)
  moreover have "takeWhile (\<lambda>c. c \<noteq> slash) (a @ slash # b) = a"
    using \<open>slash \<notin> set a\<close> by (induction a) auto
  ultimately have "back_piece r = a" "drop_piece r = b"
    by (simp_all add: back_piece_def drop_piece_def)
  then show ?thesis using more \<open>r = a @ slash # b\<close> \<open>slash \<notin> set a\<close> by simp
next
  case False
  then have "back_piece r = r" by (simp add: back_piece_def takeWhile_eq_all_conv) metis
  then show ?thesis using last False by (simp add: drop_piece_def)
qed

lemma kept_pieces_back:
  "kept_pieces (rev r) =
     kept_pieces (rev (drop_piece r)) @ (if kept (rev (back_piece r)) then [rev (back_piece r)] else [])"
proof (cases r rule: back_piece_cases)
  case last
  have "kept_pieces [] = []" by (simp add: kept_pieces_def kept_def)
  then show ?thesis using last by (simp add: kept_pieces_def split_on_plain)
next
  case more
  have "kept_pieces (rev r) = kept_pieces (rev (drop_piece r) @ slash # rev (back_piece r))"
    by (subst more(1)) simp
  then show ?thesis using more(2) by (simp add: kept_pieces_def split_on_append split_on_plain)
qed

lemma trim_back_pieces: "kept_pieces (rev (trim_back r)) = kept_pieces (rev r)"
proof (induction r rule: trim_back.induct)
  case (1 r)
  show ?case
  proof (cases "r = [] \<or> kept (rev (back_piece r))")
    case False
    then show ?thesis using 1 kept_pieces_back [of r] by (simp add: trim_back.simps [of r])
  qed (auto simp: trim_back.simps [of r])
qed

lemma trim_back_kept: "trim_back r \<noteq> [] \<Longrightarrow> kept (rev (back_piece (trim_back r)))"
proof (induction r rule: trim_back.induct)
  case (1 r)
  then show ?case by (subst trim_back.simps, subst (asm) trim_back.simps) (auto split: if_splits)
qed

text \<open>What is left is all of the text, nothing, or what follows a separator.\<close>

definition after_slash :: "string \<Rightarrow> string \<Rightarrow> bool" where
  "after_slash r r' \<longleftrightarrow> r' = [] \<or> (\<exists>z. r = z @ slash # r')"

lemma after_slash_trans: "after_slash a b \<Longrightarrow> after_slash b c \<Longrightarrow> after_slash a c"
  unfolding after_slash_def by (metis append.assoc append_Cons append_is_Nil_conv list.distinct(1))

lemma drop_piece_after: "after_slash r (drop_piece r)"
  by (cases r rule: back_piece_cases) (auto simp: after_slash_def)

lemma trim_back_after: "trim_back r = r \<or> after_slash r (trim_back r)"
proof (induction r rule: trim_back.induct)
  case (1 r)
  show ?case
  proof (cases "r = [] \<or> kept (rev (back_piece r))")
    case False
    then have "trim_back r = trim_back (drop_piece r)" by (simp add: trim_back.simps [of r])
    then show ?thesis using 1 False drop_piece_after [of r] after_slash_trans by auto
  qed (auto simp: trim_back.simps [of r])
qed

lemma dropped_after: "after_slash r (trim_back (drop_piece (trim_back r)))"
  using trim_back_after [of r] drop_piece_after [of "trim_back r"] trim_back_after [of "drop_piece (trim_back r)"]
  by (metis after_slash_trans)

section \<open>Agreement with the components\<close>

lemma kept_pieces_before: "kept_pieces (drop (before_body p) p) = kept_pieces p"
proof (cases "leading p")
  case Nil
  then show ?thesis by (simp add: before_body_def)
next
  case (Cons c cs)
  then consider q where "p = slash # q" | "p = ''.''" | q where "p = CHR ''.'' # slash # q"
    by (cases p rule: list.exhaust; cases "tl p") (auto simp: leading_def split: if_splits)
  then show ?thesis
    by cases (auto simp: before_body_def leading_def kept_pieces_def kept_def)
qed

lemma components_back: "components p = leading p @ map named (kept_pieces (rev (body_back p)))"
  by (simp add: components_def body_back_def trim_back_pieces kept_pieces_before)

lemma leading_cases: "leading p = [] \<or> leading p = [RootDir] \<or> leading p = [CurDir]"
  by (simp add: leading_def)

lemma body_back_Nil: "body_back p = [] \<Longrightarrow> components p = leading p"
  by (simp add: components_back) (simp add: kept_pieces_def kept_def)

lemma body_back_pieces:
  assumes "body_back p \<noteq> []"
  shows "components p = leading p @ map named (kept_pieces (rev (drop_piece (body_back p)))) @
    [named (rev (back_piece (body_back p)))]"
  using assms kept_pieces_back [of "body_back p"] trim_back_kept
  by (simp add: components_back) (simp add: body_back_def)

lemma leading_prefix: "leading (q @ slash # z) = [] \<Longrightarrow> leading q = []"
proof (cases q)
  case (Cons a q')
  assume "leading (q @ slash # z) = []"
  then show ?thesis using Cons by (cases q') (auto simp: leading_def split: if_splits)
qed (simp add: leading_def)

lemma leading_dot: "x = [] \<or> x @ slash # z = slash # q \<Longrightarrow> leading (CHR ''.'' # x) = [CurDir]"
  by (cases x) (auto simp: leading_def)

lemma before_body_le: "before_body p \<le> length p"
  by (cases p) (auto simp: before_body_def leading_def)

lemma leading_parent:
  assumes "body_back p \<noteq> []"
  shows "leading (take (before_body p) p @ rev (trim_back (drop_piece (body_back p)))) = leading p"
proof -
  let ?q = "rev (trim_back (drop_piece (body_back p)))"
  have cut: "?q = [] \<or> (\<exists>z. drop (before_body p) p = ?q @ slash # z)"
    using dropped_after [of "rev (drop (before_body p) p)"]
    by (auto simp: after_slash_def body_back_def rev_eq_append_conv)
  consider (root) q where "p = slash # q" | (dot) "p = ''.''" | (cur) q where "p = CHR ''.'' # slash # q"
    | (rel) "leading p = []" "take 1 p \<noteq> [slash]" "p \<noteq> ''.''" "take 2 p \<noteq> [CHR ''.'', slash]"
    by (cases p rule: list.exhaust; cases "tl p") (auto simp: leading_def split: if_splits)
  then show ?thesis
  proof cases
    case rel
    have "leading ?q = []"
    proof (cases "?q = []")
      case False
      then obtain z where "p = ?q @ slash # z" using cut rel(1) by (auto simp: before_body_def)
      then show ?thesis using leading_prefix rel(1) by metis
    qed (simp add: leading_def)
    then show ?thesis using rel(1) by (simp add: before_body_def)
  next
    case cur
    have one: "before_body p = 1" "leading p = [CurDir]" "drop (before_body p) p = slash # q"
      using cur by (simp_all add: before_body_def leading_def)
    have "leading (CHR ''.'' # ?q) = [CurDir]"
    proof (cases "?q = []")
      case False
      then obtain z where "slash # q = ?q @ slash # z" using cut unfolding one(3) by blast
      then show ?thesis by (intro leading_dot disjI2) (rule sym)
    qed (simp add: leading_def)
    moreover have "take (before_body p) p = ''.''" unfolding one(1) using cur by simp
    ultimately show ?thesis by (simp add: one(2))
  next
    case dot
    then show ?thesis using assms by (simp add: body_back_def before_body_def leading_def)
  qed (auto simp: before_body_def leading_def)
qed

text \<open>
  \<open>Path::parent\<close> and \<open>Path::file_name\<close>, computed from the end of the text, agree with the
  components of the path: there is no parent exactly for the empty path and the root; the
  components of the parent are all but the last; and the file name is the last component when
  that is an ordinary name. So a parent and a file name put together name the same file.
\<close>

lemma path_split_exact:
  "(path_parent p = None \<longleftrightarrow> components p = [] \<or> components p = [RootDir]) \<and>
   (\<forall>d. path_parent p = Some d \<longrightarrow> components d = butlast (components p)) \<and>
   path_file_name p =
     (if components p = [] then None
      else case last (components p) of Normal n \<Rightarrow> Some n | _ \<Rightarrow> None)"
proof (cases "body_back p = []")
  case True
  then show ?thesis
    using body_back_Nil [OF True] leading_cases [of p]
    by (auto simp: path_parent_def path_file_name_def)
      (simp add: components_def leading_def kept_pieces_def kept_def)
next
  case False
  let ?d = "take (before_body p) p @ rev (trim_back (drop_piece (body_back p)))"
  obtain c r where r: "body_back p = c # r" using False by (cases "body_back p") auto
  note all = body_back_pieces [OF False]
  have "before_body ?d = before_body p"
    using leading_parent [OF False] by (simp add: before_body_def)
  then have "kept_pieces ?d = kept_pieces (drop (before_body p) ?d)"
    using kept_pieces_before [of ?d] by simp
  also have "drop (before_body p) ?d = rev (trim_back (drop_piece (body_back p)))"
    using before_body_le [of p] by simp
  finally have "components ?d = leading p @ map named (kept_pieces (rev (drop_piece (body_back p))))"
    using leading_parent [OF False] by (simp add: components_def trim_back_pieces)
  then have "path_parent p = Some ?d" "components ?d = butlast (components p)"
    using all r by (simp_all add: path_parent_def butlast_append)
  moreover have "last (components p) = named (rev (back_piece (body_back p)))" using all by simp
  moreover have "components p \<noteq> []" "components p \<noteq> [RootDir]"
    using all by (auto simp: append_eq_Cons_conv named_def)
  ultimately show ?thesis
    using r by (auto simp: path_file_name_def named_def)
qed

lemmas path_parent_None = path_split_exact [THEN conjunct1]
lemmas path_parent_components = path_split_exact [THEN conjunct2, THEN conjunct1, rule_format]
lemmas path_file_name_last = path_split_exact [THEN conjunct2, THEN conjunct2]

end
