(* ===== verification/Server.thy ===== *)
theory Server
  imports Control UnixPath
begin

text \<open>
  The life of the control server, \<open>src/frontend/src/control.rs\<close>: \<open>spawn\<close> with what it does to
  the file system, the accept loop of \<open>run_server\<close> with its looks at the stop flag, and
  \<open>ControlHandle::stop\<close>, which wakes the loop by connecting to the socket's path. The
  answering of one connection is \<open>serve_connection\<close> of \<open>Control\<close>.
\<close>

section \<open>Sockets in the file system\<close>

text \<open>
  What is at a path: a socket with the listener bound to it and its permission bits, or
  something else. \<open>os_live\<close> are the listeners a connection can reach.
\<close>

datatype file_object = Socket nat nat | OtherFile

record os_state =
  os_files :: "string \<rightharpoonup> file_object"
  os_live :: "nat set"
  os_next :: nat

definition unlink :: "string \<Rightarrow> os_state \<Rightarrow> os_state" where
  "unlink path os = os\<lparr>os_files := (os_files os)(path := None)\<rparr>"

text \<open>Binding makes the file with the mode the umask leaves, and listens.\<close>

definition bind_listener :: "nat \<Rightarrow> string \<Rightarrow> os_state \<Rightarrow> (string + nat) \<times> os_state" where
  "bind_listener mode path os =
     (if path \<in> dom (os_files os) then (Err ''address in use'', os)
      else (Ok (os_next os),
            os\<lparr> os_files := (os_files os)(path \<mapsto> Socket (os_next os) mode),
                os_live := insert (os_next os) (os_live os),
                os_next := os_next os + 1 \<rparr>))"

definition close_listener :: "nat \<Rightarrow> os_state \<Rightarrow> os_state" where
  "close_listener l os = os\<lparr>os_live := os_live os - {l}\<rparr>"

text \<open>The listener a connection to a path reaches.\<close>

definition connect_to :: "string \<Rightarrow> os_state \<Rightarrow> nat option" where
  "connect_to path os =
     (case os_files os path of
        Some (Socket l mode) \<Rightarrow> if l \<in> os_live os then Some l else None
      | _ \<Rightarrow> None)"

definition set_mode :: "nat \<Rightarrow> string \<Rightarrow> os_state \<Rightarrow> os_state" where
  "set_mode mode path os =
     (case os_files os path of
        Some (Socket l _) \<Rightarrow> os\<lparr>os_files := (os_files os)(path \<mapsto> Socket l mode)\<rparr>
      | _ \<Rightarrow> os)"

section \<open>Spawning\<close>

text \<open>
  What the system answers: whether the old file can be removed, the outcome of making the
  directory, of the system calls on the socket, and of starting the thread; and the mode a
  new socket gets.
\<close>

record spawn_world =
  sp_removable :: bool
  sp_create_dirs :: "string \<Rightarrow> string + unit"
  sp_bind :: "string + unit"
  sp_new_mode :: nat
  sp_nonblocking :: "string + unit"
  sp_permissions :: "string + unit"
  sp_thread :: "string + unit"

record control_handle =
  hd_listener :: nat
  hd_join :: bool
  hd_stop :: bool
  hd_socket_path :: string

definition OWNER_ONLY :: nat where
  "OWNER_ONLY = 6 * 8 * 8"

definition make_parent :: "spawn_world \<Rightarrow> string \<Rightarrow> string + unit" where
  "make_parent w path = (case path_parent path of None \<Rightarrow> Ok () | Some d \<Rightarrow> sp_create_dirs w d)"

text \<open>On an error after binding the listener is dropped, and its file stays.\<close>

definition spawn :: "spawn_world \<Rightarrow> string \<Rightarrow> os_state \<Rightarrow> (string + control_handle) \<times> os_state" where
  "spawn w path os =
     (let os1 = (if sp_removable w then unlink path os else os)
      in case make_parent w path of
           Err e \<Rightarrow> (Err e, os1)
         | Ok _ \<Rightarrow>
        (case sp_bind w of
           Err e \<Rightarrow> (Err e, os1)
         | Ok _ \<Rightarrow>
        (case bind_listener (sp_new_mode w) path os1 of
           (Err e, os2) \<Rightarrow> (Err e, os2)
         | (Ok l, os2) \<Rightarrow>
        (case sp_nonblocking w of
           Err e \<Rightarrow> (Err e, close_listener l os2)
         | Ok _ \<Rightarrow>
        (case sp_permissions w of
           Err e \<Rightarrow> (Err e, close_listener l os2)
         | Ok _ \<Rightarrow>
        (let os3 = set_mode OWNER_ONLY path os2
         in case sp_thread w of
              Err e \<Rightarrow> (Err e, close_listener l os3)
            | Ok _ \<Rightarrow>
                (Ok \<lparr> hd_listener = l, hd_join = True, hd_stop = False, hd_socket_path = path \<rparr>, os3)))))))"

section \<open>The accept loop\<close>

text \<open>
  One connection: the bytes that arrive, how the stream ends, and the poller's part in a pull.
  A stream that breaks off, or stays silent for ten seconds, before a line is complete is a
  read error.
\<close>

datatype stream_end = EndOfFile | Broken

record peer =
  pe_input :: string
  pe_end :: stream_end
  pe_pull :: pull_world

record codec =
  co_json :: json
  co_render :: "response \<Rightarrow> string + string"

definition line_complete :: "peer \<Rightarrow> bool" where
  "line_complete p \<longleftrightarrow>
     ends_with_newline (read_line (pe_input p)) \<or> MAX_LINE \<le> length (read_line (pe_input p)) \<or>
     pe_end p = EndOfFile"

definition too_large :: "json \<Rightarrow> peer \<Rightarrow> bool" where
  "too_large js p \<longleftrightarrow> js_utf8 js (read_line (pe_input p)) \<and>
     MAX_LINE \<le> length (read_line (pe_input p)) \<and> \<not> ends_with_newline (read_line (pe_input p))"

text \<open>The bytes written to the connection, if any, and the state after it.\<close>

definition answer_peer ::
    "codec \<Rightarrow> 'b control_backend \<Rightarrow> peer \<Rightarrow> 'b control_state \<Rightarrow> string option \<times> 'b control_state" where
  "answer_peer co be p st =
     (if \<not> line_complete p then (None, st)
      else case serve_connection (co_json co) be (pe_pull p) (pe_input p) st of
        (None, st') \<Rightarrow> (None, st')
      | (Some resp, st') \<Rightarrow>
          (case co_render co resp of
             Ok s \<Rightarrow> (Some (s @ [CHR 0x0A]), st')
           | Err _ \<Rightarrow> (if too_large (co_json co) p then Some [CHR 0x0A] else None, st')))"

text \<open>
  What \<open>accept\<close> returns, with the look at the stop flag before it is acted on and the second look an
  error takes. The result says whether the loop ended; when the events run out the thread
  waits in \<open>accept\<close>.
\<close>

datatype incoming = Accepted peer | AcceptError string

record arrival =
  ar_stop :: bool
  ar_stop_again :: bool
  ar_stream :: incoming

fun run_server ::
    "codec \<Rightarrow> 'b control_backend \<Rightarrow> arrival list \<Rightarrow> 'b control_state \<Rightarrow>
     string option list \<times> 'b control_state \<times> bool" where
  "run_server co be [] st = ([], st, False)"
| "run_server co be (a # as) st =
     (if ar_stop a then ([], st, True)
      else case ar_stream a of
        AcceptError e \<Rightarrow> if ar_stop_again a then ([], st, True) else run_server co be as st
      | Accepted p \<Rightarrow>
          (case answer_peer co be p st of
             (reply, st1) \<Rightarrow>
               (case run_server co be as st1 of
                  (replies, st2, ended) \<Rightarrow> (reply # replies, st2, ended))))"

text \<open>The thread: when the loop has ended the socket file is removed and the listener closed.\<close>

definition server_exit :: "control_handle \<Rightarrow> os_state \<Rightarrow> os_state" where
  "server_exit h os = unlink (hd_socket_path h) (close_listener (hd_listener h) os)"

section \<open>Stopping\<close>

text \<open>
  The flag is set, and a connection to the path is to wake the thread, which then ends. When
  the connection does not reach this server's listener nothing wakes it, and the join waits
  for ever: \<open>None\<close>. A handle whose thread has been joined only connects.
\<close>

definition shutdown :: "control_handle \<Rightarrow> os_state \<Rightarrow> (control_handle \<times> os_state) option" where
  "shutdown h os =
     (if \<not> hd_join h then Some (h\<lparr>hd_stop := True\<rparr>, os)
      else if connect_to (hd_socket_path h) os = Some (hd_listener h)
        then Some (h\<lparr> hd_stop := True, hd_join := False \<rparr>, server_exit h os)
      else None)"

text \<open>\<open>ControlHandle::stop\<close> shuts down, and dropping the handle at its end does so again.\<close>

definition handle_stop :: "control_handle \<Rightarrow> os_state \<Rightarrow> (control_handle \<times> os_state) option" where
  "handle_stop h os = Option.bind (shutdown h os) (\<lambda>(h', os'). shutdown h' os')"

section \<open>Lemmas\<close>

text \<open>Listener numbers are issued in order.\<close>

definition os_ok :: "os_state \<Rightarrow> bool" where
  "os_ok os \<longleftrightarrow> (\<forall>l \<in> os_live os. l < os_next os)"

lemma mode_simps [simp]:
  "os_live (set_mode m path os) = os_live os" "os_next (set_mode m path os) = os_next os"
  by (simp_all add: set_mode_def split: option.splits file_object.splits)

lemma spawn_Ok:
  assumes "spawn w path os = (Ok h, os')"
  shows "h = \<lparr> hd_listener = os_next os, hd_join = True, hd_stop = False, hd_socket_path = path \<rparr>"
    and "os_files os' = (os_files os)(path \<mapsto> Socket (os_next os) OWNER_ONLY)"
    and "os_live os' = insert (os_next os) (os_live os)" and "os_next os' = Suc (os_next os)"
  using assms
  by (auto simp: spawn_def Let_def bind_listener_def set_mode_def unlink_def
      split: sum.splits if_splits)

lemma spawn_Err:
  assumes "spawn w path os = (Err e, os')" "os_ok os"
  shows "os_live os' = os_live os" "q \<noteq> path \<Longrightarrow> os_files os' q = os_files os q"
proof -
  have fresh: "os_next os \<notin> os_live os" using assms(2) by (auto simp: os_ok_def)
  show "os_live os' = os_live os"
    using assms(1) fresh
    by (auto simp: spawn_def Let_def bind_listener_def unlink_def close_listener_def
        split: sum.splits if_splits)
  show "q \<noteq> path \<Longrightarrow> os_files os' q = os_files os q"
    using assms(1)
    by (auto simp: spawn_def Let_def bind_listener_def set_mode_def unlink_def close_listener_def
        split: sum.splits if_splits)
qed

lemma spawn_os_ok: "spawn w path os = (Ok h, os') \<Longrightarrow> os_ok os \<Longrightarrow> os_ok os'"
  using spawn_Ok by (fastforce simp: os_ok_def)

text \<open>A server whose socket is still at its path can be stopped; both shutdowns return.\<close>

lemma stop_own:
  assumes "spawn w path os = (Ok h, os')" "os_ok os"
  shows "handle_stop h os' =
    Some (h\<lparr> hd_stop := True, hd_join := False \<rparr>,
      os'\<lparr> os_files := (os_files os)(path := None), os_live := os_live os \<rparr>)"
proof -
  have fresh: "os_next os \<notin> os_live os" using assms(2) by (auto simp: os_ok_def)
  then have "connect_to path os' = Some (os_next os)"
    using spawn_Ok [OF assms(1)] by (simp add: connect_to_def)
  then show ?thesis
    using spawn_Ok [OF assms(1)] fresh
    by (simp add: handle_stop_def shutdown_def server_exit_def unlink_def close_listener_def)
qed

text \<open>The peers of the connections accepted, and the server's answers to them in turn.\<close>

fun accepted :: "arrival list \<Rightarrow> peer list" where
  "accepted [] = []"
| "accepted (a # as) = (case ar_stream a of Accepted p \<Rightarrow> [p] | AcceptError e \<Rightarrow> []) @ accepted as"

fun answer_all ::
    "codec \<Rightarrow> 'b control_backend \<Rightarrow> peer list \<Rightarrow> 'b control_state \<Rightarrow>
     string option list \<times> 'b control_state" where
  "answer_all co be [] st = ([], st)"
| "answer_all co be (p # ps) st =
     (case answer_peer co be p st of
        (r, st1) \<Rightarrow> (case answer_all co be ps st1 of (rs, st2) \<Rightarrow> (r # rs, st2)))"

definition unstopped :: "arrival \<Rightarrow> bool" where
  "unstopped a \<longleftrightarrow> \<not> ar_stop a \<and> \<not> ar_stop_again a"

lemma run_server_append:
  "list_all unstopped as \<Longrightarrow>
   run_server co be (as @ rest) st =
     (case answer_all co be (accepted as) st of
        (rs, st1) \<Rightarrow> (case run_server co be rest st1 of (rs2, st2, ended) \<Rightarrow> (rs @ rs2, st2, ended)))"
  by (induction as arbitrary: st) (auto simp: unstopped_def split: incoming.splits prod.splits)

lemma answer_peer_step:
  assumes "answer_peer co be p st = (reply, st')"
  shows "st' = st \<or> ctl_step be st st'"
proof -
  have "snd (serve_connection js be pw input st) = st \<or>
      ctl_step be st (snd (serve_connection js be pw input st))" for js pw input
    by (auto simp: serve_connection_def Let_def split: sum.splits prod.splits intro: ctl_step.request)
  then show ?thesis
    using assms by (auto simp: answer_peer_def split: if_splits prod.splits option.splits sum.splits)
      (metis snd_conv)+
qed

lemma answer_all_reach:
  "answer_all co be ps st = (rs, st') \<Longrightarrow> ctl_reach be st0 st \<Longrightarrow> ctl_reach be st0 st'"
proof (induction ps arbitrary: st rs)
  case (Cons p ps)
  obtain r st1 where r: "answer_peer co be p st = (r, st1)" by fastforce
  then have "ctl_reach be st0 st1"
    using answer_peer_step [OF r] Cons.prems(2) by (auto intro: reaches.more)
  then show ?case using Cons.prems(1) Cons.IH r by (auto split: prod.splits)
qed simp

section \<open>Properties\<close>

text \<open>
  C8. The control server answers every connection it accepts before the stop flag is seen, one
  after the other and each on the state the one before left, passes over failed accepts,
  takes none after it, and ends; without an arrival that sees the flag it keeps waiting.
  Every state it goes through is one the requests reach, so what holds in all reachable states
  holds of the running server.
\<close>

theorem server_until_stop:
  assumes "list_all unstopped before" "ar_stop a"
    "answer_all co be (accepted before) st = (replies, st')"
  shows "run_server co be (before @ a # after) st = (replies, st', True) \<and>
    run_server co be before st = (replies, st', False) \<and>
    length replies = length (accepted before) \<and> ctl_reach be st st'"
proof -
  have "length rs = length ps" if "answer_all co be ps s = (rs, s')" for ps rs s s'
    using that by (induction ps arbitrary: rs s) (auto split: prod.splits)
  then show ?thesis
    using assms(2,3) run_server_append [OF assms(1), of co be "a # after" st]
      run_server_append [OF assms(1), of co be "[]" st] answer_all_reach reaches.start
    by fastforce
qed

definition sample_codec :: codec where
  "sample_codec =
     \<lparr> co_json = \<lparr> js_utf8 = (\<lambda>_. True), js_parse = (\<lambda>_. Ok FlowRuleList) \<rparr>,
       co_render = (\<lambda>r. Ok (if rp_ok r then ''ok'' else ''no'')) \<rparr>"

definition arrives :: "bool \<Rightarrow> incoming \<Rightarrow> arrival" where
  "arrives stop stream = \<lparr> ar_stop = stop, ar_stop_again = stop, ar_stream = stream \<rparr>"

definition sends :: "string \<Rightarrow> stream_end \<Rightarrow> incoming" where
  "sends text e = Accepted \<lparr> pe_input = text, pe_end = e, pe_pull = \<lparr> pw_reply_to = 0, pw_answer = None \<rparr> \<rparr>"

theorem server_until_stop_witness:
  "run_server sample_codec counting_backend
     [arrives False (sends [CHR ''x'', CHR 0x0A] Broken), arrives False (AcceptError ''e''),
      arrives False (sends ''x'' Broken), arrives True (sends ''x'' EndOfFile)] (control_new []) =
   ([Some (''ok'' @ [CHR 0x0A]), None], control_new [], True)"
proof -
  let ?before = "[arrives False (sends [CHR ''x'', CHR 0x0A] Broken), arrives False (AcceptError ''e''),
      arrives False (sends ''x'' Broken)]"
  have "answer_all sample_codec counting_backend (accepted ?before) (control_new []) =
      ([Some (''ok'' @ [CHR 0x0A]), None], control_new [])"
    by (simp add: arrives_def sends_def answer_peer_def line_complete_def read_line_def MAX_LINE_def
        ends_with_newline_def serve_connection_def sample_codec_def handle_request_def
        handle_flow_rule_list_def response_ok_def)
  then show ?thesis
    using server_until_stop [of ?before "arrives True (sends ''x'' EndOfFile)" sample_codec counting_backend
        "control_new []" _ _ "[]"]
    by (simp add: unstopped_def arrives_def)
qed

text \<open>
  C28. \<open>spawn\<close> succeeds exactly when the path is free or can be freed and no system call fails.
  Then the server is the one reached at the path, its socket is open to the owner alone (specs
  000 and 007 say owner and group), and no other path has changed; when it fails, no listener is left behind and no other path has
  changed.
\<close>

theorem spawn_exact:
  assumes "os_ok os"
  shows "case spawn w path os of
      (Ok h, os') \<Rightarrow>
        (sp_removable w \<or> path \<notin> dom (os_files os)) \<and>
        (\<forall>r \<in> {make_parent w path, sp_bind w, sp_nonblocking w, sp_permissions w, sp_thread w}. r = Ok ()) \<and>
        os_files os' = (os_files os)(path \<mapsto> Socket (hd_listener h) OWNER_ONLY) \<and>
        hd_listener h \<notin> os_live os \<and> connect_to path os' = Some (hd_listener h)
    | (Err e, os') \<Rightarrow>
        (path \<in> dom (os_files os) \<and> \<not> sp_removable w \<or>
         (\<exists>r \<in> {make_parent w path, sp_bind w, sp_nonblocking w, sp_permissions w, sp_thread w}. r = Err e)) \<and>
        os_live os' = os_live os \<and> (\<forall>q. q \<noteq> path \<longrightarrow> os_files os' q = os_files os q)"
proof -
  obtain r os' where r: "spawn w path os = (r, os')" by fastforce
  show ?thesis
  proof (cases r)
    case (Inl e)
    have "path \<in> dom (os_files os) \<and> \<not> sp_removable w \<or>
        (\<exists>r \<in> {make_parent w path, sp_bind w, sp_nonblocking w, sp_permissions w, sp_thread w}. r = Err e)"
      using r Inl by (auto simp: spawn_def Let_def bind_listener_def unlink_def split: sum.splits if_splits)
    then show ?thesis using r Inl spawn_Err [of w path os e os'] assms by simp
  next
    case (Inr h)
    have "sp_removable w \<or> path \<notin> dom (os_files os)"
      "make_parent w path = Ok ()" "sp_bind w = Ok ()" "sp_nonblocking w = Ok ()" "sp_permissions w = Ok ()"
      "sp_thread w = Ok ()"
      using r Inr by (auto simp: spawn_def Let_def bind_listener_def unlink_def split: sum.splits if_splits)
    moreover have "os_next os \<notin> os_live os" using assms by (auto simp: os_ok_def)
    ultimately show ?thesis
      using r Inr spawn_Ok [of w path os h os'] by (simp add: connect_to_def)
  qed
qed

definition willing :: spawn_world where
  "willing = \<lparr> sp_removable = True, sp_create_dirs = (\<lambda>_. Ok ()), sp_bind = Ok (), sp_new_mode = 493,
     sp_nonblocking = Ok (), sp_permissions = Ok (), sp_thread = Ok () \<rparr>"

definition empty_os :: os_state where
  "empty_os = \<lparr> os_files = Map.empty, os_live = {}, os_next = 0 \<rparr>"

lemma willing_spawns: "\<exists>h os'. spawn willing ''/run/s'' os = (Ok h, os')"
  by (auto simp: spawn_def willing_def bind_listener_def make_parent_def unlink_def Let_def
      split: option.splits)

theorem spawn_exact_witness:
  "case spawn willing ''/run/s'' empty_os of
     (Ok h, os') \<Rightarrow> connect_to ''/run/s'' os' = Some (hd_listener h) | (Err e, os') \<Rightarrow> False"
  using spawn_exact [where os = empty_os and w = willing and path = "''/run/s''"] willing_spawns [of empty_os]
  by (auto simp: os_ok_def empty_os_def)

text \<open>
  C27. A server whose socket is still at its path stops: the wake-up connection reaches it, its file
  is removed and its listener closed, and the second shutdown that dropping the handle makes
  does nothing more. A second server spawned on the same path takes the path over, and from
  then on stopping the first waits for ever, because its wake-up goes to the second.
\<close>

theorem displaced_server_hangs:
  assumes "os_ok os" "spawn w path os = (Ok h, os1)"
  shows "handle_stop h os1 =
      Some (h\<lparr> hd_stop := True, hd_join := False \<rparr>,
        os1\<lparr> os_files := (os_files os)(path := None), os_live := os_live os \<rparr>) \<and>
    (case spawn w2 path os1 of
       (Err e, os2) \<Rightarrow> True
     | (Ok h2, os2) \<Rightarrow> handle_stop h os2 = None \<and> (\<exists>r. handle_stop h2 os2 = Some r))"
proof -
  have "handle_stop h os2 = None \<and> (\<exists>r. handle_stop h2 os2 = Some r)"
    if two: "spawn w2 path os1 = (Ok h2, os2)" for h2 os2
  proof -
    have "connect_to path os2 = Some (os_next os1)" "os_next os1 \<noteq> os_next os"
      using spawn_Ok [OF two] spawn_Ok [OF assms(2)] by (simp_all add: connect_to_def)
    then have "handle_stop h os2 = None"
      using spawn_Ok(1) [OF assms(2)] by (simp add: handle_stop_def shutdown_def)
    then show ?thesis using stop_own [OF two] spawn_os_ok [OF assms(2,1)] by simp
  qed
  then show ?thesis
    using stop_own [OF assms(2,1)] by (auto split: prod.splits sum.splits)
qed

theorem displaced_server_hangs_witness:
  "\<exists>h os1 h2 os2. spawn willing ''/run/s'' empty_os = (Ok h, os1) \<and>
     spawn willing ''/run/s'' os1 = (Ok h2, os2) \<and> handle_stop h os2 = None"
proof -
  obtain h os1 where one: "spawn willing ''/run/s'' empty_os = (Ok h, os1)"
    using willing_spawns by blast
  obtain h2 os2 where two: "spawn willing ''/run/s'' os1 = (Ok h2, os2)"
    using willing_spawns by blast
  have "os_ok empty_os" by (simp add: os_ok_def empty_os_def)
  from displaced_server_hangs [OF this one, where ?w2.0 = willing] one two show ?thesis by auto
qed

end
