(* ===== verification/Exporter.thy ===== *)
theory Exporter
  imports IpcTypes Backoff Channel
begin

text \<open>
  The exporter framework, \<open>src/frontend/src/exporter.rs\<close>: the self-observability counters,
  the errors, the registration of plugins, and the thread that takes snapshots off its
  channel, runs the plugin under a deadline, counts and backs off on failure, and stops on a
  permanent error. A plugin is its operations on a state of its own.
\<close>

section \<open>Metrics\<close>

text \<open>The export duration is an \<open>f64\<close>, kept as its bits.\<close>

record exporter_metrics =
  em_ticks_dropped :: u64
  em_batches_sent :: u64
  em_batches_dropped :: u64
  em_batches_failed_non_retryable :: u64
  em_batches_failed_transient :: u64
  em_points_emitted :: u64
  em_points_dropped :: u64
  em_attrs_truncated :: u64
  em_export_duration_bits :: u64
  em_queue_depth :: u64

definition default_metrics :: exporter_metrics where
  "default_metrics =
     \<lparr> em_ticks_dropped = 0, em_batches_sent = 0, em_batches_dropped = 0,
       em_batches_failed_non_retryable = 0, em_batches_failed_transient = 0,
       em_points_emitted = 0, em_points_dropped = 0, em_attrs_truncated = 0,
       em_export_duration_bits = 0, em_queue_depth = 0 \<rparr>"

definition set_export_duration :: "u64 \<Rightarrow> exporter_metrics \<Rightarrow> exporter_metrics" where
  "set_export_duration bits m = m\<lparr>em_export_duration_bits := bits\<rparr>"

definition get_export_duration :: "exporter_metrics \<Rightarrow> u64" where
  "get_export_duration m = em_export_duration_bits m"

definition count_transient :: "exporter_metrics \<Rightarrow> exporter_metrics" where
  "count_transient m = m\<lparr>em_batches_failed_transient := em_batches_failed_transient m + 1\<rparr>"

definition count_non_retryable :: "exporter_metrics \<Rightarrow> exporter_metrics" where
  "count_non_retryable m = m\<lparr>em_batches_failed_non_retryable := em_batches_failed_non_retryable m + 1\<rparr>"

section \<open>Errors and configuration\<close>

datatype exporter_error = Transient string | Permanent string | Timeout

fun exporter_error_msg :: "exporter_error \<Rightarrow> string" where
  "exporter_error_msg (Transient e) = ''transient: '' @ e"
| "exporter_error_msg (Permanent e) = ''permanent: '' @ e"
| "exporter_error_msg Timeout = ''timeout''"

datatype config_error = ConfigError string

fun config_error_msg :: "config_error \<Rightarrow> string" where
  "config_error_msg (ConfigError e) = ''config error: '' @ e"

record exporter_config =
  xc_kind :: string
  xc_name :: string
  xc_queue_depth :: nat
  xc_export_timeout :: duration
  xc_extra :: "(string \<times> string) list"

definition default_exporter_config :: exporter_config where
  "default_exporter_config =
     \<lparr> xc_kind = [], xc_name = [], xc_queue_depth = 2, xc_export_timeout = from_millis 800,
       xc_extra = [] \<rparr>"

section \<open>Registration\<close>

record 'f registration =
  rg_kind :: string
  rg_factory :: 'f

fun find_factory :: "'f registration list \<Rightarrow> string \<Rightarrow> 'f option" where
  "find_factory [] kind = None"
| "find_factory (reg # regs) kind =
     (if rg_kind reg = kind then Some (rg_factory reg) else find_factory regs kind)"

text \<open>The kinds a duplicate warning is logged for.\<close>

fun validate_registrations :: "string set \<Rightarrow> 'f registration list \<Rightarrow> string list" where
  "validate_registrations seen [] = []"
| "validate_registrations seen (reg # regs) =
     (if rg_kind reg \<in> seen then [rg_kind reg] else []) @
     validate_registrations (insert (rg_kind reg) seen) regs"

section \<open>The exporter thread\<close>

text \<open>What one call under the deadline comes to.\<close>

datatype timed = Elapsed | Returned "exporter_error + unit"

record 's exporter =
  ex_export :: "flow_stats_snapshot \<Rightarrow> 's \<Rightarrow> timed \<times> 's"
  ex_map_metrics :: "(exporter_metrics \<Rightarrow> exporter_metrics) \<Rightarrow> 's \<Rightarrow> 's"
  ex_shutdown :: "'s \<Rightarrow> 's"

definition FIRST_BACKOFF :: duration where
  "FIRST_BACKOFF = from_millis 100"

definition BACKOFF_CEILING :: duration where
  "BACKOFF_CEILING = from_secs 30"

datatype loop_exit = Continue | Break

text \<open>One snapshot: the new plugin state and backoff, the sleep taken, and whether to go on.\<close>

definition dispatch ::
    "'s exporter \<Rightarrow> flow_stats_snapshot \<Rightarrow> 's \<times> duration \<Rightarrow> ('s \<times> duration) \<times> duration list \<times> loop_exit" where
  "dispatch ex snap sb =
     (case sb of (s, backoff) \<Rightarrow>
      (case ex_export ex snap s of (result, s1) \<Rightarrow>
        let failed = ((ex_map_metrics ex count_transient s1, min (dur_mul backoff 2) BACKOFF_CEILING),
                      [backoff], Continue)
        in case result of
             Returned (Ok _) \<Rightarrow> ((s1, FIRST_BACKOFF), [], Continue)
           | Returned (Err Timeout) \<Rightarrow> failed
           | Elapsed \<Rightarrow> failed
           | Returned (Err (Transient e)) \<Rightarrow> failed
           | Returned (Err (Permanent e)) \<Rightarrow>
               ((ex_map_metrics ex count_non_retryable s1, backoff), [], Break)))"

text \<open>
  The loop over the snapshots the channel delivers until its senders are gone: the final
  state after the shutdown, the sleeps, and the snapshots left in the channel.
\<close>

fun dispatch_loop ::
    "'s exporter \<Rightarrow> flow_stats_snapshot list \<Rightarrow> 's \<times> duration \<Rightarrow>
     ('s \<times> duration) \<times> duration list \<times> flow_stats_snapshot list" where
  "dispatch_loop ex [] sb = (sb, [], [])"
| "dispatch_loop ex (snap # snaps) sb =
     (case dispatch ex snap sb of
        (sb1, slept, Break) \<Rightarrow> (sb1, slept, snaps)
      | (sb1, slept, Continue) \<Rightarrow>
          (case dispatch_loop ex snaps sb1 of (sb2, slept2, left) \<Rightarrow> (sb2, slept @ slept2, left)))"

definition exporter_thread ::
    "'s exporter \<Rightarrow> flow_stats_snapshot list \<Rightarrow> 's \<Rightarrow> 's \<times> duration list \<times> flow_stats_snapshot list" where
  "exporter_thread ex snaps s =
     (case dispatch_loop ex snaps (s, FIRST_BACKOFF) of
        ((s', _), slept, left) \<Rightarrow> (ex_shutdown ex s', slept, left))"

section \<open>The backoff\<close>

interpretation exporter_backoff: doubling_backoff FIRST_BACKOFF BACKOFF_CEILING
  "\<lambda>d. min (dur_mul d 2) BACKOFF_CEILING"
  by unfold_locales (simp_all add: FIRST_BACKOFF_def BACKOFF_CEILING_def duration_simps)

section \<open>The outcomes of a run\<close>

fun is_permanent :: "timed \<Rightarrow> bool" where
  "is_permanent (Returned (Err (Permanent _))) = True"
| "is_permanent _ = False"

fun is_success :: "timed \<Rightarrow> bool" where
  "is_success (Returned (Ok _)) = True"
| "is_success _ = False"

lemma dispatch_cases:
  obtains (success) s1 where "ex_export ex snap s = (Returned (Ok ()), s1)"
      "dispatch ex snap (s, b) = ((s1, FIRST_BACKOFF), [], Continue)"
  | (retry) r s1 where "ex_export ex snap s = (r, s1)" "\<not> is_success r" "\<not> is_permanent r"
      "dispatch ex snap (s, b) =
        ((ex_map_metrics ex count_transient s1, min (dur_mul b 2) BACKOFF_CEILING), [b], Continue)"
  | (stop) e s1 where "ex_export ex snap s = (Returned (Err (Permanent e)), s1)"
      "dispatch ex snap (s, b) = ((ex_map_metrics ex count_non_retryable s1, b), [], Break)"
proof -
  obtain r s1 where r: "ex_export ex snap s = (r, s1)" by fastforce
  show ?thesis
  proof (cases r)
    case Elapsed
    then show ?thesis using r by (intro retry) (auto simp: dispatch_def)
  next
    case (Returned x)
    show ?thesis
    proof (cases x)
      case (Inr u)
      then show ?thesis using r Returned by (intro success) (auto simp: dispatch_def)
    next
      case (Inl e)
      then show ?thesis
        using r Returned by (cases e) (auto simp: dispatch_def intro: retry stop)
    qed
  qed
qed

text \<open>What the plugin answers to each snapshot it is given, up to the first permanent error.\<close>

fun outcomes :: "'s exporter \<Rightarrow> flow_stats_snapshot list \<Rightarrow> 's \<Rightarrow> timed list" where
  "outcomes ex [] s = []"
| "outcomes ex (snap # snaps) s =
     (case ex_export ex snap s of
        (r, s1) \<Rightarrow>
          r # (if is_permanent r then []
               else outcomes ex snaps (if is_success r then s1 else ex_map_metrics ex count_transient s1)))"

text \<open>The delay each failure is followed by, from a number of failures in a row on.\<close>

fun delays :: "nat \<Rightarrow> timed list \<Rightarrow> duration list" where
  "delays n [] = []"
| "delays n (r # rs) =
     (if is_success r then delays 0 rs
      else if is_permanent r then []
      else min (dur_mul (from_millis 100) (2 ^ n)) (from_secs 30) # delays (Suc n) rs)"

lemma dispatch_loop_delays:
  "dispatch_loop ex snaps (s, exporter_backoff.after n) = (sb, slept, left) \<Longrightarrow>
   slept = delays n (outcomes ex snaps s) \<and>
   left = drop (length (outcomes ex snaps s)) snaps"
proof (induction snaps arbitrary: s n sb slept left)
  case (Cons snap snaps)
  have after: "exporter_backoff.after n = min (dur_mul (from_millis 100) (2 ^ n)) (from_secs 30)"
    by (subst exporter_backoff.after_closed) (simp add: FIRST_BACKOFF_def BACKOFF_CEILING_def)
  show ?case
  proof (cases rule: dispatch_cases
      [where ex = ex and snap = snap and s = s and b = "exporter_backoff.after n"])
    case (success s1)
    obtain sb2 slept2 left2 where
        rest: "dispatch_loop ex snaps (s1, exporter_backoff.after 0) = (sb2, slept2, left2)"
      by (metis prod_cases3)
    then show ?thesis using Cons.IH [OF rest] Cons.prems success by (simp del: exporter_backoff.after_0) simp
  next
    case (retry r s1)
    let ?s2 = "ex_map_metrics ex count_transient s1"
    obtain sb2 slept2 left2 where
        rest: "dispatch_loop ex snaps (?s2, exporter_backoff.after (Suc n)) = (sb2, slept2, left2)"
      by (metis prod_cases3)
    then show ?thesis
      using Cons.IH [OF rest] Cons.prems retry after
      by (simp add: exporter_backoff.after_Suc)
  next
    case (stop e s1)
    then show ?thesis using Cons.prems by simp
  qed
qed simp

lemma outcomes_shape:
  "list_all (\<lambda>r. \<not> is_permanent r) (butlast (outcomes ex snaps s)) \<and>
   length (outcomes ex snaps s) \<le> length snaps \<and>
   (length (outcomes ex snaps s) = length snaps \<or>
    outcomes ex snaps s \<noteq> [] \<and> is_permanent (last (outcomes ex snaps s)))"
proof (induction snaps arbitrary: s)
  case (Cons snap snaps)
  obtain r s1 where r: "ex_export ex snap s = (r, s1)" by fastforce
  show ?case
    using r Cons.IH [of "if is_success r then s1 else ex_map_metrics ex count_transient s1"]
    by (auto split: if_splits)
qed simp

section \<open>Properties\<close>

text \<open>
  C19. The exporter thread, over any plugin and any snapshots: it gives the plugin the snapshots
  in order up to the first permanent error, after which it takes no other; every other
  failure is followed by a sleep of 100 ms doubled with each failure in a row, at most 30 s,
  and a success starts the doubling again.
\<close>

theorem exporter_thread_exact:
  "case exporter_thread ex snaps s of (s', slept, left) \<Rightarrow>
     (let os = outcomes ex snaps s
      in slept = delays 0 os \<and> left = drop (length os) snaps \<and>
         list_all (\<lambda>r. \<not> is_permanent r) (butlast os) \<and>
         (left = [] \<or> os \<noteq> [] \<and> is_permanent (last os)))"
proof -
  obtain sb slept left where
      run: "dispatch_loop ex snaps (s, exporter_backoff.after 0) = (sb, slept, left)"
    by (metis prod_cases3)
  show ?thesis
    using dispatch_loop_delays [OF run] outcomes_shape [of ex snaps s] run
    by (cases sb) (auto simp: exporter_thread_def Let_def)
qed

end
