(* ===== verification/OtlpAttrs.thy ===== *)
theory OtlpAttrs
  imports Exporter IpText "HOL-Library.Char_ord" "HOL-Library.List_Lexorder"
begin

text \<open>
  The attributes of the OTLP exporter, \<open>src/frontend/src/otlp.rs\<close>: truncation of long values
  at a character boundary, the text of addresses, and the attributes of a flow, sorted by
  key. A value that is cut is counted, so the builders return how many they cut.
\<close>

section \<open>Constants\<close>

definition DEFAULT_MAX_EXPORT_POINTS_PER_TICK :: nat where
  "DEFAULT_MAX_EXPORT_POINTS_PER_TICK = 2000000"

definition DEFAULT_MAX_BATCH_POINTS :: nat where
  "DEFAULT_MAX_BATCH_POINTS = 8192"

definition ATTRIBUTE_LENGTH_CAP :: nat where
  "ATTRIBUTE_LENGTH_CAP = 256"

definition POINTS_PER_FLOW :: nat where
  "POINTS_PER_FLOW = 3"

definition POINTS_PER_FLOW_RULE :: nat where
  "POINTS_PER_FLOW_RULE = 5"

definition MAX_RETRIES :: nat where
  "MAX_RETRIES = 3"

definition RETRY_BASE :: duration where
  "RETRY_BASE = from_secs 1"

definition RETRY_CAP :: duration where
  "RETRY_CAP = from_secs 30"

lemmas otlp_consts =
  DEFAULT_MAX_EXPORT_POINTS_PER_TICK_def DEFAULT_MAX_BATCH_POINTS_def ATTRIBUTE_LENGTH_CAP_def
  POINTS_PER_FLOW_def POINTS_PER_FLOW_RULE_def MAX_RETRIES_def RETRY_BASE_def RETRY_CAP_def

section \<open>Truncation\<close>

text \<open>
  A string is its UTF-8 bytes: an index is a character boundary when it is an end or the byte
  there is not a continuation byte.
\<close>

definition continuation :: "char \<Rightarrow> bool" where
  "continuation c \<longleftrightarrow> 128 \<le> byte c \<and> byte c < 192"

definition is_char_boundary :: "string \<Rightarrow> nat \<Rightarrow> bool" where
  "is_char_boundary s i \<longleftrightarrow>
     i = 0 \<or> (if i < length s then \<not> continuation (s ! i) else i = length s)"

fun back_up :: "string \<Rightarrow> nat \<Rightarrow> nat" where
  "back_up s i = (if 0 < i \<and> \<not> is_char_boundary s i then back_up s (i - 1) else i)"

declare back_up.simps [simp del]

definition ellipsis :: string where
  "ellipsis = [char_of (226 :: nat), char_of (128 :: nat), char_of (166 :: nat)]"

text \<open>The text, and whether it was cut (the counter's increment).\<close>

definition truncate_utf8_counted :: "string \<Rightarrow> nat \<Rightarrow> string \<times> nat" where
  "truncate_utf8_counted s max_bytes =
     (if length s \<le> max_bytes then (s, 0)
      else let limit = max_bytes - 3; stop = back_up s limit
           in (take stop s @ ellipsis, 1))"

lemma back_up_le: "back_up s i \<le> i"
proof (induction s i rule: back_up.induct)
  case (1 s i)
  then show ?case by (subst back_up.simps) auto
qed

lemma back_up_boundary: "is_char_boundary s (back_up s i)"
proof (induction s i rule: back_up.induct)
  case (1 s i)
  show ?case
  proof (cases "0 < i \<and> \<not> is_char_boundary s i")
    case True
    then show ?thesis using 1 by (subst back_up.simps) simp
  next
    case False
    then have "is_char_boundary s i" by (cases i) (auto simp: is_char_boundary_def)
    then show ?thesis using False by (subst back_up.simps) simp
  qed
qed

text \<open>It stops at the last boundary not past the limit.\<close>

lemma back_up_greatest: "j \<le> i \<Longrightarrow> is_char_boundary s j \<Longrightarrow> j \<le> back_up s i"
proof (induction s i rule: back_up.induct)
  case (1 s i)
  show ?case
  proof (cases "0 < i \<and> \<not> is_char_boundary s i")
    case True
    then have "j \<noteq> i" using 1 by auto
    then show ?thesis using 1 True by (subst back_up.simps) simp
  next
    case False
    then have "back_up s i = i" by (subst back_up.simps) auto
    then show ?thesis using 1(2) by simp
  qed
qed

section \<open>Key-value pairs\<close>

datatype any_value = StringValue string | IntValue int

record key_value =
  kv_key :: string
  kv_value :: any_value

definition kv_string_counted :: "string \<Rightarrow> string \<Rightarrow> key_value \<times> nat" where
  "kv_string_counted key v =
     (case truncate_utf8_counted v ATTRIBUTE_LENGTH_CAP of
        (s, n) \<Rightarrow> (\<lparr> kv_key = key, kv_value = StringValue s \<rparr>, n))"

definition kv_string :: "string \<Rightarrow> string \<Rightarrow> key_value" where
  "kv_string key v = fst (kv_string_counted key v)"

definition kv_int :: "string \<Rightarrow> int \<Rightarrow> key_value" where
  "kv_int key v = \<lparr> kv_key = key, kv_value = IntValue v \<rparr>"

definition render_ip :: "ip_addr \<Rightarrow> string" where
  "render_ip addr =
     (case addr of
        V4 v4 \<Rightarrow> show_ipv4 v4
      | V6 v6 \<Rightarrow> (case to_ipv4_mapped v6 of Some v4 \<Rightarrow> show_ipv4 v4 | None \<Rightarrow> show_ipv6 v6))"

section \<open>The attributes of a flow\<close>

definition field_attribute :: "field_id \<Rightarrow> field_value \<Rightarrow> (key_value \<times> nat) option" where
  "field_attribute f v =
     (case (f, v) of
        (IdSrcIp, VIp addr) \<Rightarrow> Some (kv_string_counted ''flow.src_ip'' (render_ip addr))
      | (IdDstIp, VIp addr) \<Rightarrow> Some (kv_string_counted ''flow.dst_ip'' (render_ip addr))
      | (IdMirrorSrcIp, VIp addr) \<Rightarrow> Some (kv_string_counted ''flow.mirror_src_ip'' (render_ip addr))
      | (IdIpProto, VProto p) \<Rightarrow> Some (kv_int ''flow.ip_proto'' (uint p), 0)
      | (IdDscp, VDscp d) \<Rightarrow> Some (kv_int ''flow.dscp'' (uint d), 0)
      | (IdSrcPort, VPort p) \<Rightarrow> Some (kv_int ''flow.src_port'' (uint p), 0)
      | (IdDstPort, VPort p) \<Rightarrow> Some (kv_int ''flow.dst_port'' (uint p), 0)
      | _ \<Rightarrow> None)"

text \<open>The loop over the fields, each with the key's value at its position, when there is one.\<close>

fun field_attributes :: "field_id list \<Rightarrow> field_value list \<Rightarrow> (key_value \<times> nat) list" where
  "field_attributes [] vs = []"
| "field_attributes (f # fs) [] = []"
| "field_attributes (f # fs) (v # vs) =
     (case field_attribute f v of None \<Rightarrow> [] | Some a \<Rightarrow> [a]) @ field_attributes fs vs"

definition build_flow_attributes ::
    "flow_rule_stats \<Rightarrow> flow_stats \<Rightarrow> field_id list \<Rightarrow> key_value list \<times> nat" where
  "build_flow_attributes fr flow flds =
     (let attrs = kv_string_counted ''flow-rule'' (rs_name fr) # field_attributes flds (fl_key flow)
      in (sort_key kv_key (map fst attrs), sum_list (map snd attrs)))"

section \<open>What the attributes are\<close>

fun attribute_key :: "field_id \<Rightarrow> string" where
  "attribute_key IdSrcIp = ''flow.src_ip''"
| "attribute_key IdDstIp = ''flow.dst_ip''"
| "attribute_key IdMirrorSrcIp = ''flow.mirror_src_ip''"
| "attribute_key IdIpProto = ''flow.ip_proto''"
| "attribute_key IdDscp = ''flow.dscp''"
| "attribute_key IdSrcPort = ''flow.src_port''"
| "attribute_key IdDstPort = ''flow.dst_port''"

lemma attribute_key_inj: "attribute_key f = attribute_key g \<longleftrightarrow> f = g"
  by (cases f; cases g) simp_all

lemma attribute_key_not_rule: "attribute_key f \<noteq> ''flow-rule''"
  by (cases f) simp_all

lemma kv_key_counted [simp]: "kv_key (fst (kv_string_counted k v)) = k"
  by (simp add: kv_string_counted_def split: prod.splits)

lemma field_attribute_fits:
  "value_fits f v \<Longrightarrow> \<exists>a. field_attribute f v = Some a \<and> kv_key (fst a) = attribute_key f"
  by (cases "(f, v)" rule: value_fits.cases) (auto simp: field_attribute_def kv_int_def simp del: split_paired_Ex)

lemma field_attributes_fit:
  "list_all2 value_fits fs vs \<Longrightarrow>
   map (\<lambda>a. kv_key (fst a)) (field_attributes fs vs) = map attribute_key fs"
  by (induction rule: list_all2_induct) (auto dest: field_attribute_fits)

lemma truncated_length: "3 \<le> n \<Longrightarrow> length (fst (truncate_utf8_counted s n)) \<le> n"
  using back_up_le [of s "n - 3"]
  by (auto simp: truncate_utf8_counted_def ellipsis_def Let_def)

definition value_length :: "any_value \<Rightarrow> nat" where
  "value_length v = (case v of StringValue s \<Rightarrow> length s | IntValue _ \<Rightarrow> 0)"

lemma kv_counted_length: "value_length (kv_value (fst (kv_string_counted k v))) \<le> 256"
  using truncated_length [of 256 v]
  by (auto simp: kv_string_counted_def value_length_def ATTRIBUTE_LENGTH_CAP_def split: prod.splits)

lemma kv_int_length: "value_length (kv_value (kv_int k i)) = 0"
  by (simp add: kv_int_def value_length_def)

lemma field_attributes_length:
  "a \<in> set (field_attributes fs vs) \<Longrightarrow> value_length (kv_value (fst a)) \<le> 256"
proof (induction fs vs rule: field_attributes.induct)
  case (3 f fs v vs)
  have "value_length (kv_value (fst a)) \<le> 256" if "field_attribute f v = Some a"
    using that by (cases f; cases v) (auto simp: field_attribute_def kv_counted_length kv_int_length)
  then show ?case using 3 by (auto split: option.splits)
qed simp_all

section \<open>Properties\<close>

text \<open>
  C26. A truncated attribute value is at most the cap long; when the text is longer than the cap
  it is the longest prefix of whole characters that leaves room for the ellipsis, followed by
  the ellipsis, and the counter is bumped exactly then.
\<close>

theorem truncate_exact:
  assumes "3 \<le> cap"
  shows "case truncate_utf8_counted s cap of (t, n) \<Rightarrow>
     length t \<le> cap \<and> n = (if length s \<le> cap then 0 else 1) \<and>
     (if length s \<le> cap then t = s
      else \<exists>i \<le> cap - 3. t = take i s @ ellipsis \<and> is_char_boundary s i \<and>
        (\<forall>j \<le> cap - 3. is_char_boundary s j \<longrightarrow> j \<le> i))"
  using truncated_length [OF assms, of s] back_up_le [of s "cap - 3"] back_up_boundary
    back_up_greatest [of _ "cap - 3" s]
  by (auto simp: truncate_utf8_counted_def Let_def split: prod.splits)

theorem truncate_exact_witness:
  "truncate_utf8_counted [char_of (195::nat), char_of (169::nat), CHR ''a'', CHR ''b'', CHR ''c''] 4 = (ellipsis, 1)"
proof -
  let ?s = "[char_of (195::nat), char_of (169::nat), CHR ''a'', CHR ''b'', CHR ''c'']"
  obtain t n where r: "truncate_utf8_counted ?s 4 = (t, n)" by fastforce
  have "n = 1 \<and> (\<exists>i \<le> 1. t = take i ?s @ ellipsis \<and> is_char_boundary ?s i)"
    using truncate_exact [of 4 ?s] unfolding r by auto
  moreover have "\<not> is_char_boundary ?s 1"
    by (simp add: is_char_boundary_def continuation_def)
  ultimately show ?thesis unfolding r by (auto simp: le_Suc_eq)
qed

text \<open>
  C32. The attributes of a flow whose key fits the schema: sorted by key, one for the rule and
  one for each field and no other, so keys never repeat when the fields do not; and no string
  among them is longer than 256 bytes.
\<close>

theorem flow_attributes_exact:
  assumes "list_all2 value_fits flds (fl_key flow)" "distinct flds"
  shows "sorted (map kv_key (fst (build_flow_attributes fr flow flds))) \<and>
    distinct (map kv_key (fst (build_flow_attributes fr flow flds))) \<and>
    set (map kv_key (fst (build_flow_attributes fr flow flds))) =
      insert ''flow-rule'' (attribute_key ` set flds) \<and>
    list_all (\<lambda>a. value_length (kv_value a) \<le> 256) (fst (build_flow_attributes fr flow flds))"
proof -
  let ?attrs = "kv_string_counted ''flow-rule'' (rs_name fr) # field_attributes flds (fl_key flow)"
  have out: "fst (build_flow_attributes fr flow flds) = sort_key kv_key (map fst ?attrs)"
    by (simp add: build_flow_attributes_def Let_def)
  have keys: "map kv_key (map fst ?attrs) = ''flow-rule'' # map attribute_key flds"
    using field_attributes_fit [OF assms(1)] by (simp add: o_def)
  have "distinct (map kv_key (map fst ?attrs))"
    unfolding keys using assms(2) attribute_key_not_rule
    by (auto simp: distinct_map inj_on_def attribute_key_inj) metis
  then have "distinct (map kv_key (sort_key kv_key (map fst ?attrs)))"
    by (simp only: distinct_map distinct_sort set_sort)
  moreover have "set (map kv_key (sort_key kv_key (map fst ?attrs))) =
      insert ''flow-rule'' (attribute_key ` set flds)"
    using arg_cong [OF keys, of set] by (simp only: set_map set_sort) simp
  moreover have "list_all (\<lambda>a. value_length (kv_value a) \<le> 256) (sort_key kv_key (map fst ?attrs))"
    unfolding list_all_iff set_sort using field_attributes_length kv_counted_length by auto
  ultimately show ?thesis unfolding out by (simp only: sorted_sort_key simp_thms)
qed

theorem flow_attributes_exact_witness:
  "sorted (map kv_key (fst (build_flow_attributes
     \<lparr> rs_name = ''web'', rs_fields = [IdSrcPort, IdDscp], rs_max_keys = 1, rs_eviction_policy = LruDrop,
       rs_flows = [], rs_counters = \<lparr> rc_evictions = 0, rc_drops = 0, rc_packets = 0, rc_bytes = 0 \<rparr> \<rparr>
     \<lparr> fl_key = [VPort 80, VDscp 3], fl_counters = \<lparr> ctr_packets = 1, ctr_bytes = 1,
       ctr_first_seen_ns = 0, ctr_last_seen_ns = 0 \<rparr> \<rparr> [IdSrcPort, IdDscp])))"
  by (rule flow_attributes_exact [THEN conjunct1]) simp_all

end
