(* ===== verification/OtlpRequest.thy ===== *)
theory OtlpRequest
  imports OtlpAttrs
begin

text \<open>
  Building the OTLP request from a snapshot, \<open>build_request\<close> of \<open>src/frontend/src/otlp.rs\<close>:
  the budget of points shared out over the rules, the points of every emitted flow and of
  every rule, grouped into one metric per name, and the exporter's own metrics. The messages
  are the values the code constructs, with the fields it sets; a floating-point value is its
  bits. Counts of flows and points are natural numbers: they count vector elements.
\<close>

section \<open>Messages\<close>

datatype number_value = AsInt int | AsDouble u64

record number_data_point =
  dp_attributes :: "key_value list"
  dp_start_time :: u64
  dp_time :: u64
  dp_value :: number_value

datatype temporality = Delta | Cumulative

record sum_data =
  su_points :: "number_data_point list"
  su_temporality :: temporality
  su_is_monotonic :: bool

text \<open>Other kinds of metric data exist; the exporter never builds one.\<close>

datatype metric_data = DSum sum_data | DGauge "number_data_point list" | DOther

record metric =
  me_name :: string
  me_description :: string
  me_unit :: string
  me_data :: metric_data

record scope_metrics =
  sc_scope :: "string \<times> string"
  sc_metrics :: "metric list"

record resource_metrics =
  rm_resource :: "key_value list"
  rm_scope_metrics :: "scope_metrics list"

record request =
  rq_resource_metrics :: "resource_metrics list"

section \<open>Helpers\<close>

definition saturating_i64 :: "u64 \<Rightarrow> int" where
  "saturating_i64 v = (if uint v < 2 ^ 63 then uint v else 2 ^ 63 - 1)"

definition count_metric_data_points :: "metric \<Rightarrow> nat" where
  "count_metric_data_points m =
     (case me_data m of DSum s \<Rightarrow> length (su_points s) | DGauge ps \<Rightarrow> length ps | DOther \<Rightarrow> 0)"

definition int_point :: "key_value list \<Rightarrow> u64 \<Rightarrow> u64 \<Rightarrow> u64 \<Rightarrow> number_data_point" where
  "int_point attrs start time v =
     \<lparr> dp_attributes = attrs, dp_start_time = start, dp_time = time, dp_value = AsInt (saturating_i64 v) \<rparr>"

definition sum_metric :: "string \<Rightarrow> string \<Rightarrow> string \<Rightarrow> number_data_point list \<Rightarrow> metric" where
  "sum_metric name description units points =
     \<lparr> me_name = name, me_description = description, me_unit = units,
       me_data = DSum \<lparr> su_points = points, su_temporality = Cumulative, su_is_monotonic = True \<rparr> \<rparr>"

definition gauge_metric :: "string \<Rightarrow> string \<Rightarrow> string \<Rightarrow> number_data_point list \<Rightarrow> metric" where
  "gauge_metric name description units points =
     \<lparr> me_name = name, me_description = description, me_unit = units, me_data = DGauge points \<rparr>"

definition make_sum_metric :: "string \<Rightarrow> string \<Rightarrow> u64 \<Rightarrow> key_value list \<Rightarrow> u64 \<Rightarrow> metric" where
  "make_sum_metric name units v attrs time = sum_metric name [] units [int_point attrs 0 time v]"

definition make_gauge_metric :: "string \<Rightarrow> string \<Rightarrow> u64 \<Rightarrow> u64 \<Rightarrow> metric" where
  "make_gauge_metric name units v time =
     gauge_metric name [] units
       [\<lparr> dp_attributes = [], dp_start_time = 0, dp_time = time, dp_value = AsDouble v \<rparr>]"

section \<open>The budget\<close>

fun distribute :: "nat \<Rightarrow> nat list \<Rightarrow> nat list" where
  "distribute remainder [] = []"
| "distribute remainder (b # bs) =
     (if remainder = 0 then b # bs else (b + 1) # distribute (remainder - 1) bs)"

definition effective_cap :: "nat \<Rightarrow> nat \<Rightarrow> nat" where
  "effective_cap max_points n_rules =
     (let flow_rule_budget = n_rules * POINTS_PER_FLOW_RULE;
          remaining_budget = max_points - flow_rule_budget
      in remaining_budget div max POINTS_PER_FLOW 1)"

definition flow_budgets :: "nat \<Rightarrow> nat list \<Rightarrow> nat list" where
  "flow_budgets max_points counts =
     (let total_flows = sum_list counts;
          cap = effective_cap max_points (length counts)
      in if total_flows = 0 \<or> total_flows \<le> cap then counts
         else let budgets = map (\<lambda>n. cap * n div total_flows) counts;
                  allocated = sum_list budgets
              in distribute (cap - allocated) budgets)"

section \<open>The points\<close>

record point_vecs =
  pv_flow_packets :: "number_data_point list"
  pv_flow_bytes :: "number_data_point list"
  pv_flow_last_seen :: "number_data_point list"
  pv_fr_flows :: "number_data_point list"
  pv_fr_evictions :: "number_data_point list"
  pv_fr_drops :: "number_data_point list"
  pv_fr_packets :: "number_data_point list"
  pv_fr_bytes :: "number_data_point list"
  pv_dropped :: nat
  pv_truncated :: nat

definition no_points :: point_vecs where
  "no_points =
     \<lparr> pv_flow_packets = [], pv_flow_bytes = [], pv_flow_last_seen = [], pv_fr_flows = [],
       pv_fr_evictions = [], pv_fr_drops = [], pv_fr_packets = [], pv_fr_bytes = [],
       pv_dropped = 0, pv_truncated = 0 \<rparr>"

definition push_flow :: "u64 \<Rightarrow> flow_rule_stats \<Rightarrow> flow_stats \<Rightarrow> point_vecs \<Rightarrow> point_vecs" where
  "push_flow wall_ns fr flow pv =
     (let (attrs, truncated) = build_flow_attributes fr flow (rs_fields fr); c = fl_counters flow
      in pv\<lparr> pv_flow_packets := pv_flow_packets pv @
               [int_point attrs (ctr_first_seen_ns c) wall_ns (ctr_packets c)],
             pv_flow_bytes := pv_flow_bytes pv @
               [int_point attrs (ctr_first_seen_ns c) wall_ns (ctr_bytes c)],
             pv_flow_last_seen := pv_flow_last_seen pv @
               [int_point attrs 0 wall_ns (ctr_last_seen_ns c)],
             pv_truncated := pv_truncated pv + truncated \<rparr>)"

definition push_rule :: "u64 \<Rightarrow> flow_rule_stats \<Rightarrow> point_vecs \<Rightarrow> point_vecs" where
  "push_rule wall_ns fr pv =
     (let fr_attrs = [kv_string ''flow-rule'' (rs_name fr)]; c = rs_counters fr
      in pv\<lparr> pv_fr_flows := pv_fr_flows pv @
               [int_point fr_attrs 0 wall_ns (word_of_nat (length (rs_flows fr)))],
             pv_fr_evictions := pv_fr_evictions pv @ [int_point fr_attrs 0 wall_ns (rc_evictions c)],
             pv_fr_drops := pv_fr_drops pv @
               [int_point (fr_attrs @ [kv_string ''reason'' ''eviction_failed'']) 0 wall_ns (rc_drops c)],
             pv_fr_packets := pv_fr_packets pv @ [int_point fr_attrs 0 wall_ns (rc_packets c)],
             pv_fr_bytes := pv_fr_bytes pv @ [int_point fr_attrs 0 wall_ns (rc_bytes c)] \<rparr>)"

definition push_budgeted :: "u64 \<Rightarrow> nat \<times> flow_rule_stats \<Rightarrow> point_vecs \<Rightarrow> point_vecs" where
  "push_budgeted wall_ns bf pv =
     (case bf of (budget, fr) \<Rightarrow>
        (let flows_to_emit = min budget (length (rs_flows fr));
             flows_dropped = length (rs_flows fr) - flows_to_emit;
             pv1 = pv\<lparr>pv_dropped := pv_dropped pv + flows_dropped * POINTS_PER_FLOW\<rparr>
         in push_rule wall_ns fr
              (fold (push_flow wall_ns fr) (take flows_to_emit (rs_flows fr)) pv1)))"

text \<open>A rule past the end of the budgets would get none.\<close>

definition budget_at :: "nat list \<Rightarrow> nat \<Rightarrow> nat" where
  "budget_at budgets i = (if i < length budgets then budgets ! i else 0)"

definition collect_points :: "nat \<Rightarrow> flow_stats_snapshot \<Rightarrow> point_vecs" where
  "collect_points max_points snap =
     (let frs = sn_flow_rules snap;
          budgets = flow_budgets max_points (map (\<lambda>fr. length (rs_flows fr)) frs)
      in fold (push_budgeted (sn_wall_clock_ns snap))
           (map (\<lambda>(i, fr). (budget_at budgets i, fr)) (enumerate 0 frs)) no_points)"

definition points_emitted_count :: "point_vecs \<Rightarrow> nat" where
  "points_emitted_count pv =
     length (pv_flow_packets pv) + length (pv_flow_bytes pv) + length (pv_flow_last_seen pv) +
     length (pv_fr_flows pv) + length (pv_fr_evictions pv) + length (pv_fr_drops pv) +
     length (pv_fr_packets pv) + length (pv_fr_bytes pv)"

section \<open>The metrics\<close>

definition unless_empty :: "number_data_point list \<Rightarrow> (number_data_point list \<Rightarrow> metric) \<Rightarrow> metric list" where
  "unless_empty ps f = (if ps = [] then [] else [f ps])"

definition data_metrics :: "point_vecs \<Rightarrow> metric list" where
  "data_metrics pv =
     unless_empty (pv_flow_packets pv)
       (sum_metric ''infmon.flow.packets'' ''Total packets attributed to this flow'' ''{packets}'') @
     unless_empty (pv_flow_bytes pv)
       (sum_metric ''infmon.flow.bytes'' ''Total bytes attributed to this flow'' ''By'') @
     unless_empty (pv_flow_last_seen pv)
       (gauge_metric ''infmon.flow.last_seen'' ''Wall-clock ns of the most recent packet'' ''ns'') @
     unless_empty (pv_fr_flows pv)
       (gauge_metric ''infmon.flow-rule.flows'' ''Number of live flows in this flow-rule'' ''{flows}'') @
     unless_empty (pv_fr_evictions pv)
       (sum_metric ''infmon.flow-rule.evictions'' ''Total evictions for this flow-rule'' ''{evictions}'') @
     unless_empty (pv_fr_drops pv)
       (sum_metric ''infmon.flow-rule.drops'' ''Total drops for this flow-rule'' ''{drops}'') @
     unless_empty (pv_fr_packets pv)
       (sum_metric ''infmon.flow-rule.packets'' ''Total packets for this flow-rule'' ''{packets}'') @
     unless_empty (pv_fr_bytes pv)
       (sum_metric ''infmon.flow-rule.bytes'' ''Total bytes for this flow-rule'' ''By'')"

definition self_metrics :: "(u64 \<Rightarrow> u64) \<Rightarrow> exporter_metrics \<Rightarrow> u64 \<Rightarrow> metric list" where
  "self_metrics to_f64 m wall_ns =
     [make_sum_metric ''infmon.exporter.ticks_dropped'' ''{ticks}'' (em_ticks_dropped m) [] wall_ns,
      make_sum_metric ''infmon.exporter.batches_sent'' ''{batches}'' (em_batches_sent m) [] wall_ns,
      make_sum_metric ''infmon.exporter.batches_dropped'' ''{batches}'' (em_batches_dropped m) [] wall_ns,
      sum_metric ''infmon.exporter.batches_failed'' [] ''{batches}''
        [int_point [kv_string ''reason'' ''non_retryable''] 0 wall_ns (em_batches_failed_non_retryable m),
         int_point [kv_string ''reason'' ''transient''] 0 wall_ns (em_batches_failed_transient m)],
      make_sum_metric ''infmon.exporter.points_emitted'' ''{points}'' (em_points_emitted m) [] wall_ns,
      make_sum_metric ''infmon.exporter.points_dropped'' ''{points}'' (em_points_dropped m)
        [kv_string ''reason'' ''export_cap''] wall_ns,
      make_sum_metric ''infmon.exporter.attrs_truncated'' ''{attrs}'' (em_attrs_truncated m) [] wall_ns,
      make_gauge_metric ''infmon.exporter.export_duration'' ''s'' (get_export_duration m) wall_ns,
      make_gauge_metric ''infmon.exporter.queue_depth'' ''{batches}'' (to_f64 (em_queue_depth m)) wall_ns]"

record otlp_exporter =
  ox_name :: string
  ox_endpoint :: string
  ox_instance_id_path :: "string option"
  ox_max_export_points_per_tick :: nat
  ox_max_batch_points :: nat
  ox_export_timeout :: duration
  ox_resource_attrs :: "key_value list"
  ox_client :: bool
  ox_metrics :: exporter_metrics

text \<open>
  The build-time environment: the package version, and the conversion of an integer to the
  bits of a float. The request, the points built, and the exporter with its counters moved on.
\<close>

record build_env =
  be_version :: string
  be_to_f64 :: "u64 \<Rightarrow> u64"

definition build_request ::
    "build_env \<Rightarrow> flow_stats_snapshot \<Rightarrow> otlp_exporter \<Rightarrow> (request \<times> nat) \<times> otlp_exporter" where
  "build_request env snap ox =
     (let pv = collect_points (ox_max_export_points_per_tick ox) snap;
          m = (ox_metrics ox)\<lparr>
                em_attrs_truncated := em_attrs_truncated (ox_metrics ox) + word_of_nat (pv_truncated pv),
                em_points_dropped := em_points_dropped (ox_metrics ox) + word_of_nat (pv_dropped pv) \<rparr>;
          metrics = data_metrics pv @ self_metrics (be_to_f64 env) m (sn_wall_clock_ns snap)
      in ((\<lparr> rq_resource_metrics =
              [\<lparr> rm_resource = ox_resource_attrs ox,
                 rm_scope_metrics = [\<lparr> sc_scope = (''infmon'', be_version env), sc_metrics = metrics \<rparr>] \<rparr>] \<rparr>,
           points_emitted_count pv),
          ox\<lparr>ox_metrics := m\<rparr>))"

section \<open>The budget shares out the cap\<close>

lemma length_distribute [simp]: "length (distribute r bs) = length bs"
  by (induction r bs rule: distribute.induct) auto

lemma sum_distribute: "r \<le> length bs \<Longrightarrow> sum_list (distribute r bs) = sum_list bs + r"
  by (induction r bs rule: distribute.induct) auto

lemma distribute_nth: "i < length bs \<Longrightarrow> distribute r bs ! i = bs ! i + (if i < r then 1 else 0)"
  by (induction r bs arbitrary: i rule: distribute.induct) (auto simp: nth_Cons split: nat.splits)

text \<open>Rounding down loses less than one unit per rule.\<close>

lemma sum_div_bounds:
  fixes counts :: "nat list" and cap t :: nat
  assumes "0 < t"
  shows "sum_list (map (\<lambda>n. cap * n div t) counts) * t \<le> cap * sum_list counts"
    and "cap * sum_list counts \<le> (sum_list (map (\<lambda>n. cap * n div t) counts) + length counts) * t"
proof (induction counts)
  case (Cons n ns)
  define q where "q = cap * n div t"
  define S where "S = sum_list (map (\<lambda>n. cap * n div t) ns)"
  have "q * t \<le> cap * n" "cap * n \<le> q * t + t"
    using assms div_mult_mod_eq [of "cap * n" t] mod_less_divisor [of t "cap * n"]
    unfolding q_def by linarith+
  moreover have "S * t \<le> cap * sum_list ns" "cap * sum_list ns \<le> (S + length ns) * t"
    using Cons.IH unfolding S_def .
  ultimately have "(q + S) * t \<le> cap * (n + sum_list ns)"
      "cap * (n + sum_list ns) \<le> (q + S + length (n # ns)) * t"
    by (simp_all add: add_mult_distrib add_mult_distrib2)
  then show "sum_list (map (\<lambda>n. cap * n div t) (n # ns)) * t \<le> cap * sum_list (n # ns)"
      "cap * sum_list (n # ns) \<le> (sum_list (map (\<lambda>n. cap * n div t) (n # ns)) + length (n # ns)) * t"
    by (simp_all add: q_def S_def)
qed simp_all

lemma shares_sum:
  fixes counts :: "nat list" and cap :: nat
  assumes "0 < sum_list counts"
  defines "bs \<equiv> map (\<lambda>n. cap * n div sum_list counts) counts"
  shows "sum_list bs \<le> cap" "cap - sum_list bs \<le> length counts"
  using sum_div_bounds [OF assms(1), of cap counts] assms(1) unfolding bs_def by simp_all

lemma length_flow_budgets [simp]: "length (flow_budgets mp counts) = length counts"
  by (simp add: flow_budgets_def Let_def)

lemma flow_budgets_sum:
  assumes "effective_cap mp (length counts) < sum_list counts"
  shows "sum_list (flow_budgets mp counts) = effective_cap mp (length counts)"
proof -
  have pos: "0 < sum_list counts" using assms by linarith
  show ?thesis
    using assms pos shares_sum [OF pos, of "effective_cap mp (length counts)"]
    by (simp add: flow_budgets_def Let_def sum_distribute del: sum_list_eq_0_iff)
qed

text \<open>A non-empty rule is never given more than it has; an empty one may be given a unit in vain.\<close>

lemma flow_budget_bound:
  assumes "effective_cap mp (length counts) < sum_list counts" "i < length counts" "0 < counts ! i"
  shows "flow_budgets mp counts ! i \<le> counts ! i"
proof -
  let ?cap = "effective_cap mp (length counts)" and ?t = "sum_list counts"
  have "?cap * counts ! i < ?t * counts ! i" using assms by simp
  then have "?cap * counts ! i div ?t < counts ! i"
    using assms(1) by (simp add: div_less_iff_less_mult mult.commute)
  then show ?thesis
    using assms by (simp add: flow_budgets_def Let_def distribute_nth)
qed

text \<open>The flows emitted for each rule.\<close>

definition emitted :: "nat \<Rightarrow> nat list \<Rightarrow> nat list" where
  "emitted mp counts = map2 min (flow_budgets mp counts) counts"

lemma map2_min_same: "map2 min xs xs = (xs :: nat list)"
  by (induction xs) auto

lemma emitted_all:
  "sum_list counts \<le> effective_cap mp (length counts) \<Longrightarrow> emitted mp counts = counts"
  by (simp add: emitted_def flow_budgets_def Let_def map2_min_same)

lemma sum_map2_min_le: "length xs = length ys \<Longrightarrow> sum_list (map2 min xs ys) \<le> (sum_list xs :: nat)"
  by (induction xs ys rule: list_induct2) auto

lemma emitted_le_cap: "sum_list (emitted mp counts) \<le> effective_cap mp (length counts)"
proof (cases "sum_list counts \<le> effective_cap mp (length counts)")
  case True
  then show ?thesis by (simp add: emitted_all)
next
  case False
  then have "sum_list (flow_budgets mp counts) = effective_cap mp (length counts)"
    by (intro flow_budgets_sum) simp
  then show ?thesis
    using sum_map2_min_le [of "flow_budgets mp counts" counts] by (simp add: emitted_def)
qed

lemma emitted_full:
  assumes "effective_cap mp (length counts) < sum_list counts" "0 \<notin> set counts"
  shows "sum_list (emitted mp counts) = effective_cap mp (length counts)"
proof -
  have "emitted mp counts = flow_budgets mp counts"
  proof (rule nth_equalityI)
    fix i assume "i < length (emitted mp counts)"
    then have i: "i < length counts" by (simp add: emitted_def)
    then have "0 < counts ! i" using assms(2) by (metis neq0_conv nth_mem)
    then show "emitted mp counts ! i = flow_budgets mp counts ! i"
      using flow_budget_bound [OF assms(1) i] i by (simp add: emitted_def)
  qed (simp add: emitted_def)
  then show ?thesis using flow_budgets_sum [OF assms(1)] by simp
qed

section \<open>Counting the points\<close>

text \<open>The lengths of the eight vectors and the count of dropped points.\<close>

definition sizes :: "point_vecs \<Rightarrow> nat list" where
  "sizes pv =
     map length [pv_flow_packets pv, pv_flow_bytes pv, pv_flow_last_seen pv, pv_fr_flows pv,
       pv_fr_evictions pv, pv_fr_drops pv, pv_fr_packets pv, pv_fr_bytes pv] @ [pv_dropped pv]"

lemma fold_push_flow_sizes:
  "sizes (fold (push_flow w fr) flows pv) =
   map2 (+) (sizes pv) [length flows, length flows, length flows, 0, 0, 0, 0, 0, 0]"
  by (induction flows arbitrary: pv) (simp_all add: sizes_def push_flow_def Let_def split: prod.splits)

lemma push_rule_sizes: "sizes (push_rule w fr pv) = map2 (+) (sizes pv) [0, 0, 0, 1, 1, 1, 1, 1, 0]"
  by (simp add: sizes_def push_rule_def Let_def)

lemma push_budgeted_sizes:
  "sizes (push_budgeted w (b, fr) pv) =
   (let e = min b (length (rs_flows fr))
    in map2 (+) (sizes pv) [e, e, e, 1, 1, 1, 1, 1, (length (rs_flows fr) - e) * 3])"
proof -
  let ?e = "min b (length (rs_flows fr))"
  let ?pv1 = "pv\<lparr>pv_dropped := pv_dropped pv + (length (rs_flows fr) - ?e) * POINTS_PER_FLOW\<rparr>"
  have "sizes (fold (push_flow w fr) (take ?e (rs_flows fr)) ?pv1) =
      map2 (+) (sizes ?pv1) [?e, ?e, ?e, 0, 0, 0, 0, 0, 0]"
    by (simp add: fold_push_flow_sizes)
  then show ?thesis
    by (simp add: push_budgeted_def push_rule_sizes Let_def)
      (simp add: sizes_def POINTS_PER_FLOW_def)
qed

lemma fold_push_budgeted_sizes:
  "sizes (fold (push_budgeted w) bfs pv) =
   (let e = sum_list (map (\<lambda>(b, fr). min b (length (rs_flows fr))) bfs); n = length bfs
    in map2 (+) (sizes pv) [e, e, e, n, n, n, n, n,
         sum_list (map (\<lambda>(b, fr). (length (rs_flows fr) - min b (length (rs_flows fr))) * 3) bfs)])"
proof (induction bfs arbitrary: pv)
  case Nil
  then show ?case by (simp add: sizes_def)
next
  case (Cons bf bfs)
  obtain b fr where bf: "bf = (b, fr)" by (cases bf)
  show ?case
    by (simp add: Cons.IH bf push_budgeted_sizes Let_def) (simp add: sizes_def)
qed

section \<open>What is built\<close>

lemma budget_pairs:
  "length bs = length frs \<Longrightarrow>
   map (\<lambda>(i, fr). (budget_at bs i, fr)) (enumerate 0 frs) = zip bs frs"
  by (rule nth_equalityI) (simp_all add: nth_enumerate_eq budget_at_def)

definition counts_of :: "flow_stats_snapshot \<Rightarrow> nat list" where
  "counts_of snap = map (\<lambda>fr. length (rs_flows fr)) (sn_flow_rules snap)"

lemma collect_points_zip:
  "collect_points mp snap =
   fold (push_budgeted (sn_wall_clock_ns snap))
     (zip (flow_budgets mp (counts_of snap)) (sn_flow_rules snap)) no_points"
  by (simp add: collect_points_def Let_def counts_of_def budget_pairs)

lemma sum_min_zip:
  "length bs = length frs \<Longrightarrow>
   sum_list (map (\<lambda>(b, fr). min b (length (rs_flows fr))) (zip bs frs)) =
   sum_list (map2 min bs (map (\<lambda>fr. length (rs_flows fr)) frs))"
  by (induction bs frs rule: list_induct2) auto

lemma sum_dropped_zip:
  "length bs = length frs \<Longrightarrow>
   sum_list (map (\<lambda>(b, fr). (length (rs_flows fr) - min b (length (rs_flows fr))) * 3) (zip bs frs)) +
   3 * sum_list (map2 min bs (map (\<lambda>fr. length (rs_flows fr)) frs)) =
   3 * sum_list (map (\<lambda>fr. length (rs_flows fr)) frs)"
  by (induction bs frs rule: list_induct2) auto

lemma collect_points_sizes:
  "sizes (collect_points mp snap) =
   (let e = sum_list (emitted mp (counts_of snap)); n = length (sn_flow_rules snap)
    in [e, e, e, n, n, n, n, n, 3 * (sum_list (counts_of snap) - e)])"
proof -
  let ?bs = "flow_budgets mp (counts_of snap)" and ?frs = "sn_flow_rules snap"
  have len: "length ?bs = length ?frs" by (simp add: counts_of_def)
  have e: "sum_list (map (\<lambda>(b, fr). min b (length (rs_flows fr))) (zip ?bs ?frs)) =
      sum_list (emitted mp (counts_of snap))"
    using sum_min_zip [OF len] by (simp only: emitted_def counts_of_def)
  have d: "sum_list (map (\<lambda>(b, fr). (length (rs_flows fr) - min b (length (rs_flows fr))) * 3) (zip ?bs ?frs)) =
      3 * (sum_list (counts_of snap) - sum_list (emitted mp (counts_of snap)))"
    using sum_dropped_zip [OF len] by (simp only: emitted_def counts_of_def [symmetric])
  show ?thesis
    unfolding collect_points_zip fold_push_budgeted_sizes e d
    using len by (simp add: Let_def sizes_def no_points_def)
qed

lemma collect_points_dropped:
  "pv_dropped (collect_points mp snap) =
   3 * (sum_list (counts_of snap) - sum_list (emitted mp (counts_of snap)))"
  using arg_cong [OF collect_points_sizes [of mp snap], of last] by (simp add: sizes_def Let_def)

lemma points_emitted_sizes: "points_emitted_count pv = sum_list (butlast (sizes pv))"
  by (simp add: points_emitted_count_def sizes_def)

definition metrics_points :: "metric list \<Rightarrow> nat" where
  "metrics_points ms = sum_list (map count_metric_data_points ms)"

lemma count_sum_metric [simp]: "count_metric_data_points (sum_metric n d u ps) = length ps"
  by (simp add: count_metric_data_points_def sum_metric_def)

lemma count_gauge_metric [simp]: "count_metric_data_points (gauge_metric n d u ps) = length ps"
  by (simp add: count_metric_data_points_def gauge_metric_def)

lemma unless_empty_points:
  "(\<And>ps. count_metric_data_points (f ps) = length ps) \<Longrightarrow>
   metrics_points (unless_empty ps f) = length ps"
  by (simp add: unless_empty_def metrics_points_def)

lemma metrics_points_append: "metrics_points (xs @ ys) = metrics_points xs + metrics_points ys"
  by (simp add: metrics_points_def)

lemma data_metrics_points: "metrics_points (data_metrics pv) = points_emitted_count pv"
  by (simp add: data_metrics_def metrics_points_append unless_empty_points points_emitted_count_def)

lemma self_metrics_points: "metrics_points (self_metrics to_f64 m w) = 10"
  by (simp add: self_metrics_def metrics_points_def make_sum_metric_def make_gauge_metric_def)

definition request_metrics :: "request \<Rightarrow> metric list" where
  "request_metrics rq = concat (map sc_metrics (concat (map rm_scope_metrics (rq_resource_metrics rq))))"

section \<open>The content of the points\<close>

text \<open>The points of all metrics of a name.\<close>

definition metric_data_points :: "metric \<Rightarrow> number_data_point list" where
  "metric_data_points m =
     (case me_data m of DSum s \<Rightarrow> su_points s | DGauge ps \<Rightarrow> ps | DOther \<Rightarrow> [])"

definition points_named :: "string \<Rightarrow> metric list \<Rightarrow> number_data_point list" where
  "points_named name ms = concat (map metric_data_points (filter (\<lambda>m. me_name m = name) ms))"

lemma points_named_append [simp]: "points_named n (xs @ ys) = points_named n xs @ points_named n ys"
  by (simp add: points_named_def)

lemma points_named_unless_empty [simp]:
  "points_named n (unless_empty ps (sum_metric m d u)) = (if m = n then ps else [])"
  "points_named n (unless_empty ps (gauge_metric m d u)) = (if m = n then ps else [])"
  by (simp_all add: points_named_def unless_empty_def metric_data_points_def sum_metric_def
      gauge_metric_def)

lemma metric_names [simp]:
  "me_name (make_sum_metric n u v as t) = n" "me_name (make_gauge_metric n u v' t) = n"
  "me_name (sum_metric n d u ps) = n"
  by (simp_all add: make_sum_metric_def make_gauge_metric_def sum_metric_def gauge_metric_def)

lemma points_named_self:
  "points_named ''infmon.flow.packets'' (self_metrics f m w) = []"
  "points_named ''infmon.flow.bytes'' (self_metrics f m w) = []"
  "points_named ''infmon.flow.last_seen'' (self_metrics f m w) = []"
  "points_named ''infmon.flow-rule.flows'' (self_metrics f m w) = []"
  "points_named ''infmon.flow-rule.evictions'' (self_metrics f m w) = []"
  "points_named ''infmon.flow-rule.drops'' (self_metrics f m w) = []"
  "points_named ''infmon.flow-rule.packets'' (self_metrics f m w) = []"
  "points_named ''infmon.flow-rule.bytes'' (self_metrics f m w) = []"
  by (simp_all add: points_named_def self_metrics_def)

text \<open>What the first flows of a rule, up to its budget, put into a vector.\<close>

definition flow_points ::
    "(flow_counters \<Rightarrow> u64) \<Rightarrow> (flow_counters \<Rightarrow> u64) \<Rightarrow> u64 \<Rightarrow> nat \<Rightarrow> flow_rule_stats \<Rightarrow>
     number_data_point list" where
  "flow_points start_of value_of w b fr =
     map (\<lambda>fl. int_point (fst (build_flow_attributes fr fl (rs_fields fr)))
       (start_of (fl_counters fl)) w (value_of (fl_counters fl))) (take b (rs_flows fr))"

text \<open>The texts that become attributes of a flow, and how many of them are too long.\<close>

fun text_of :: "field_id \<times> field_value \<Rightarrow> string option" where
  "text_of (IdSrcIp, VIp a) = Some (render_ip a)"
| "text_of (IdDstIp, VIp a) = Some (render_ip a)"
| "text_of (IdMirrorSrcIp, VIp a) = Some (render_ip a)"
| "text_of _ = None"

definition too_long :: "flow_rule_stats \<Rightarrow> flow_stats \<Rightarrow> nat" where
  "too_long fr flow =
     length (filter (\<lambda>t. 256 < length t)
       (rs_name fr # List.map_filter text_of (zip (rs_fields fr) (fl_key flow))))"

definition cut_attributes :: "nat \<Rightarrow> flow_rule_stats \<Rightarrow> nat" where
  "cut_attributes b fr = sum_list (map (too_long fr) (take b (rs_flows fr)))"

lemma kv_string_counted_cut: "snd (kv_string_counted k v) = (if 256 < length v then 1 else 0)"
  by (simp add: kv_string_counted_def truncate_utf8_counted_def ATTRIBUTE_LENGTH_CAP_def Let_def)

lemma field_attributes_cut:
  "sum_list (map snd (field_attributes fs vs)) =
   length (filter (\<lambda>t. 256 < length t) (List.map_filter text_of (zip fs vs)))"
proof (induction fs vs rule: field_attributes.induct)
  case (3 f fs v vs)
  have "sum_list (map snd (case field_attribute f v of None \<Rightarrow> [] | Some a \<Rightarrow> [a])) =
      length (filter (\<lambda>t. 256 < length t) (case text_of (f, v) of None \<Rightarrow> [] | Some t \<Rightarrow> [t]))"
    by (cases f; cases v) (simp_all add: field_attribute_def kv_string_counted_cut)
  then show ?case using 3 by (auto simp: List.map_filter_simps split: option.splits)
qed (simp_all add: List.map_filter_simps)

lemma flow_attributes_cut: "snd (build_flow_attributes fr flow (rs_fields fr)) = too_long fr flow"
  by (simp add: build_flow_attributes_def Let_def too_long_def field_attributes_cut kv_string_counted_cut)

lemma fold_push_flow:
  fixes pv :: point_vecs and w :: u64 and fr :: flow_rule_stats and b :: nat
  defines "pv' \<equiv> fold (push_flow w fr) (take b (rs_flows fr)) pv"
  shows "pv_flow_packets pv' = pv_flow_packets pv @ flow_points ctr_first_seen_ns ctr_packets w b fr"
    "pv_flow_bytes pv' = pv_flow_bytes pv @ flow_points ctr_first_seen_ns ctr_bytes w b fr"
    "pv_flow_last_seen pv' = pv_flow_last_seen pv @ flow_points (\<lambda>_. 0) ctr_last_seen_ns w b fr"
    "pv_truncated pv' = pv_truncated pv + cut_attributes b fr"
    "pv_fr_flows pv' = pv_fr_flows pv" "pv_fr_evictions pv' = pv_fr_evictions pv"
    "pv_fr_drops pv' = pv_fr_drops pv" "pv_fr_packets pv' = pv_fr_packets pv"
    "pv_fr_bytes pv' = pv_fr_bytes pv"
proof -
  have step: "push_flow w fr fl pv = pv\<lparr>
      pv_flow_packets := pv_flow_packets pv @ [int_point (fst (build_flow_attributes fr fl (rs_fields fr)))
        (ctr_first_seen_ns (fl_counters fl)) w (ctr_packets (fl_counters fl))],
      pv_flow_bytes := pv_flow_bytes pv @ [int_point (fst (build_flow_attributes fr fl (rs_fields fr)))
        (ctr_first_seen_ns (fl_counters fl)) w (ctr_bytes (fl_counters fl))],
      pv_flow_last_seen := pv_flow_last_seen pv @ [int_point (fst (build_flow_attributes fr fl (rs_fields fr)))
        0 w (ctr_last_seen_ns (fl_counters fl))],
      pv_truncated := pv_truncated pv + too_long fr fl \<rparr>" for fl pv
    by (simp add: push_flow_def Let_def flow_attributes_cut split: prod.splits)
      (metis flow_attributes_cut snd_conv)
  have flows: "(let pv' = fold (push_flow w fr) flows pv in
      pv_flow_packets pv' = pv_flow_packets pv @ map (\<lambda>fl. int_point (fst (build_flow_attributes fr fl (rs_fields fr)))
        (ctr_first_seen_ns (fl_counters fl)) w (ctr_packets (fl_counters fl))) flows \<and>
      pv_flow_bytes pv' = pv_flow_bytes pv @ map (\<lambda>fl. int_point (fst (build_flow_attributes fr fl (rs_fields fr)))
        (ctr_first_seen_ns (fl_counters fl)) w (ctr_bytes (fl_counters fl))) flows \<and>
      pv_flow_last_seen pv' = pv_flow_last_seen pv @ map (\<lambda>fl. int_point (fst (build_flow_attributes fr fl (rs_fields fr)))
        0 w (ctr_last_seen_ns (fl_counters fl))) flows \<and>
      pv_truncated pv' = pv_truncated pv + sum_list (map (too_long fr) flows) \<and>
      pv_fr_flows pv' = pv_fr_flows pv \<and> pv_fr_evictions pv' = pv_fr_evictions pv \<and>
      pv_fr_drops pv' = pv_fr_drops pv \<and> pv_fr_packets pv' = pv_fr_packets pv \<and>
      pv_fr_bytes pv' = pv_fr_bytes pv)" for flows
    by (induction flows arbitrary: pv) (simp_all add: step Let_def)
  show "pv_flow_packets pv' = pv_flow_packets pv @ flow_points ctr_first_seen_ns ctr_packets w b fr"
    "pv_flow_bytes pv' = pv_flow_bytes pv @ flow_points ctr_first_seen_ns ctr_bytes w b fr"
    "pv_flow_last_seen pv' = pv_flow_last_seen pv @ flow_points (\<lambda>_. 0) ctr_last_seen_ns w b fr"
    "pv_truncated pv' = pv_truncated pv + cut_attributes b fr"
    "pv_fr_flows pv' = pv_fr_flows pv" "pv_fr_evictions pv' = pv_fr_evictions pv"
    "pv_fr_drops pv' = pv_fr_drops pv" "pv_fr_packets pv' = pv_fr_packets pv"
    "pv_fr_bytes pv' = pv_fr_bytes pv"
    using flows [of "take b (rs_flows fr)"] unfolding pv'_def flow_points_def cut_attributes_def
    by (simp_all add: Let_def)
qed

text \<open>The single point of a rule in each of its five series.\<close>

definition rule_point :: "(flow_rule_stats \<Rightarrow> u64) \<Rightarrow> key_value list \<Rightarrow> u64 \<Rightarrow> flow_rule_stats \<Rightarrow> number_data_point"
where
  "rule_point value_of labels w fr =
     int_point (kv_string ''flow-rule'' (rs_name fr) # labels) 0 w (value_of fr)"

definition live_flows :: "flow_rule_stats \<Rightarrow> u64" where
  "live_flows fr = word_of_nat (length (rs_flows fr))"

lemma take_min_length [simp]: "take (min b (length xs)) xs = take b xs"
  by (simp add: min_def)

lemma push_budgeted_points:
  "pv_flow_packets (push_budgeted w (b, fr) pv) =
     pv_flow_packets pv @ flow_points ctr_first_seen_ns ctr_packets w b fr"
  "pv_flow_bytes (push_budgeted w (b, fr) pv) =
     pv_flow_bytes pv @ flow_points ctr_first_seen_ns ctr_bytes w b fr"
  "pv_flow_last_seen (push_budgeted w (b, fr) pv) =
     pv_flow_last_seen pv @ flow_points (\<lambda>_. 0) ctr_last_seen_ns w b fr"
  "pv_truncated (push_budgeted w (b, fr) pv) = pv_truncated pv + cut_attributes b fr"
  "pv_fr_flows (push_budgeted w (b, fr) pv) = pv_fr_flows pv @ [rule_point live_flows [] w fr]"
  "pv_fr_evictions (push_budgeted w (b, fr) pv) =
     pv_fr_evictions pv @ [rule_point (rc_evictions \<circ> rs_counters) [] w fr]"
  "pv_fr_drops (push_budgeted w (b, fr) pv) = pv_fr_drops pv @
     [rule_point (rc_drops \<circ> rs_counters) [kv_string ''reason'' ''eviction_failed''] w fr]"
  "pv_fr_packets (push_budgeted w (b, fr) pv) =
     pv_fr_packets pv @ [rule_point (rc_packets \<circ> rs_counters) [] w fr]"
  "pv_fr_bytes (push_budgeted w (b, fr) pv) =
     pv_fr_bytes pv @ [rule_point (rc_bytes \<circ> rs_counters) [] w fr]"
  by (simp_all add: push_budgeted_def push_rule_def Let_def fold_push_flow rule_point_def live_flows_def)

lemma fold_push_budgeted_points:
  "pv_flow_packets (fold (push_budgeted w) bfs pv) =
     pv_flow_packets pv @ concat (map (\<lambda>(b, fr). flow_points ctr_first_seen_ns ctr_packets w b fr) bfs)"
  "pv_flow_bytes (fold (push_budgeted w) bfs pv) =
     pv_flow_bytes pv @ concat (map (\<lambda>(b, fr). flow_points ctr_first_seen_ns ctr_bytes w b fr) bfs)"
  "pv_flow_last_seen (fold (push_budgeted w) bfs pv) =
     pv_flow_last_seen pv @ concat (map (\<lambda>(b, fr). flow_points (\<lambda>_. 0) ctr_last_seen_ns w b fr) bfs)"
  "pv_truncated (fold (push_budgeted w) bfs pv) =
     pv_truncated pv + sum_list (map (\<lambda>(b, fr). cut_attributes b fr) bfs)"
  "pv_fr_flows (fold (push_budgeted w) bfs pv) =
     pv_fr_flows pv @ map (rule_point live_flows [] w) (map snd bfs)"
  "pv_fr_evictions (fold (push_budgeted w) bfs pv) =
     pv_fr_evictions pv @ map (rule_point (rc_evictions \<circ> rs_counters) [] w) (map snd bfs)"
  "pv_fr_drops (fold (push_budgeted w) bfs pv) = pv_fr_drops pv @
     map (rule_point (rc_drops \<circ> rs_counters) [kv_string ''reason'' ''eviction_failed''] w) (map snd bfs)"
  "pv_fr_packets (fold (push_budgeted w) bfs pv) =
     pv_fr_packets pv @ map (rule_point (rc_packets \<circ> rs_counters) [] w) (map snd bfs)"
  "pv_fr_bytes (fold (push_budgeted w) bfs pv) =
     pv_fr_bytes pv @ map (rule_point (rc_bytes \<circ> rs_counters) [] w) (map snd bfs)"
  by (induction bfs arbitrary: pv) (auto simp: push_budgeted_points)

text \<open>How many attribute texts of the emitted flows are cut.\<close>

definition truncations :: "nat \<Rightarrow> flow_stats_snapshot \<Rightarrow> nat" where
  "truncations mp snap =
     sum_list (map2 cut_attributes (flow_budgets mp (counts_of snap)) (sn_flow_rules snap))"

lemma collect_points_truncated: "pv_truncated (collect_points mp snap) = truncations mp snap"
  by (simp add: collect_points_zip fold_push_budgeted_points no_points_def truncations_def)

section \<open>Properties\<close>

text \<open>
  C12. The request built from a snapshot holds three points for every emitted flow, five for
  every rule and ten about the exporter itself, and the drop counter grows by three for every
  flow left out. Every flow is emitted when they fit the cap that remains after the rules'
  own points; otherwise exactly that cap of flows is, when no rule is empty, and never more.
  So the flow and rule points stay within the configured maximum whenever the rules' own
  points do; when these alone exceed it, they are sent all the same.
\<close>

theorem build_request_points:
  "case build_request env snap ox of ((rq, built), ox') \<Rightarrow>
     (let mp = ox_max_export_points_per_tick ox;
          n = length (sn_flow_rules snap);
          total_flows = sum_list (counts_of snap);
          cap = (mp - 5 * n) div 3;
          e = sum_list (emitted mp (counts_of snap))
      in built = 3 * e + 5 * n \<and>
         metrics_points (request_metrics rq) = built + 10 \<and>
         em_points_dropped (ox_metrics ox') =
           em_points_dropped (ox_metrics ox) + word_of_nat (3 * (total_flows - e)) \<and>
         (if total_flows \<le> cap then e = total_flows
          else if 0 \<in> set (counts_of snap) then e \<le> cap else e = cap) \<and>
         built \<le> max mp (5 * n))"
proof -
  let ?mp = "ox_max_export_points_per_tick ox" and ?n = "length (sn_flow_rules snap)"
  let ?e = "sum_list (emitted ?mp (counts_of snap))"
  let ?pv = "collect_points ?mp snap"
  have len: "length (counts_of snap) = ?n" by (simp add: counts_of_def)
  have cap: "effective_cap ?mp (length (counts_of snap)) = (?mp - 5 * ?n) div 3"
    by (simp add: effective_cap_def len POINTS_PER_FLOW_def POINTS_PER_FLOW_RULE_def mult.commute)
  have built: "points_emitted_count ?pv = 3 * ?e + 5 * ?n"
    by (simp add: points_emitted_sizes collect_points_sizes Let_def)
  have dropped: "pv_dropped ?pv = 3 * (sum_list (counts_of snap) - ?e)"
    by (rule collect_points_dropped)
  have le: "?e \<le> (?mp - 5 * ?n) div 3" using emitted_le_cap [of ?mp "counts_of snap"] by (simp add: cap)
  have le_total: "?e \<le> sum_list (counts_of snap)"
  proof (cases "sum_list (counts_of snap) \<le> (?mp - 5 * ?n) div 3")
    case True
    then show ?thesis using emitted_all [of "counts_of snap" ?mp] by (simp add: cap)
  next
    case False
    then show ?thesis using le by linarith
  qed
  have exact: "?e = min ((?mp - 5 * ?n) div 3) (sum_list (counts_of snap))"
    if "sum_list (counts_of snap) \<le> (?mp - 5 * ?n) div 3 \<or> 0 \<notin> set (counts_of snap)"
    using that emitted_all [of "counts_of snap" ?mp] emitted_full [of ?mp "counts_of snap"]
    by (cases "sum_list (counts_of snap) \<le> (?mp - 5 * ?n) div 3") (simp_all add: cap min_def)
  have bound: "3 * ?e + 5 * ?n \<le> max ?mp (5 * ?n)" using le by linarith
  show ?thesis
    using le le_total exact bound
    by (simp add: build_request_def Let_def built dropped request_metrics_def metrics_points_append
        data_metrics_points self_metrics_points)
qed

text \<open>
  C31. Every data point of a request about flows and rules, series by series, found under the
  metric names of the request itself. A flow series has, rule by rule in the order of the
  snapshot, one point for each of the rule's first flows up to its budget, with the flow's
  attributes and the snapshot's wall clock: packets and bytes start at the flow's first
  sighting, \<open>last_seen\<close> has no start, and the value is the flow's own, clamped to the signed
  range. Each of the five rule series has one point per rule, labelled with its name.
\<close>

theorem flow_points_exact:
  "case build_request env snap ox of ((rq, built), ox') \<Rightarrow>
     (let w = sn_wall_clock_ns snap; frs = sn_flow_rules snap;
          bs = flow_budgets (ox_max_export_points_per_tick ox) (counts_of snap);
          points = (\<lambda>name. points_named name (request_metrics rq))
      in points ''infmon.flow.packets'' = concat (map2 (flow_points ctr_first_seen_ns ctr_packets w) bs frs) \<and>
         points ''infmon.flow.bytes'' = concat (map2 (flow_points ctr_first_seen_ns ctr_bytes w) bs frs) \<and>
         points ''infmon.flow.last_seen'' = concat (map2 (flow_points (\<lambda>_. 0) ctr_last_seen_ns w) bs frs) \<and>
         points ''infmon.flow-rule.flows'' = map (rule_point live_flows [] w) frs \<and>
         points ''infmon.flow-rule.evictions'' = map (rule_point (rc_evictions \<circ> rs_counters) [] w) frs \<and>
         points ''infmon.flow-rule.drops'' =
           map (rule_point (rc_drops \<circ> rs_counters) [kv_string ''reason'' ''eviction_failed''] w) frs \<and>
         points ''infmon.flow-rule.packets'' = map (rule_point (rc_packets \<circ> rs_counters) [] w) frs \<and>
         points ''infmon.flow-rule.bytes'' = map (rule_point (rc_bytes \<circ> rs_counters) [] w) frs)"
proof -
  let ?pv = "collect_points (ox_max_export_points_per_tick ox) snap"
  have frs: "map snd (zip (flow_budgets mp (counts_of snap)) (sn_flow_rules snap)) = sn_flow_rules snap" for mp
    by (simp add: counts_of_def)
  show ?thesis
    by (simp add: build_request_def Let_def request_metrics_def points_named_self data_metrics_def
        collect_points_zip fold_push_budgeted_points frs no_points_def)
qed

end
