(* ===== verification/OtlpExport.thy ===== *)
theory OtlpExport
  imports OtlpRequest
begin

text \<open>
  Shipping an OTLP request, \<open>src/frontend/src/otlp.rs\<close>: slicing it into batches of bounded
  size, sending each with retries and backoff, the accounting of what was sent, and the
  construction of the exporter from its configuration. The network is a parameter: whether
  connecting succeeds at an attempt, and how the call ends.
\<close>

section \<open>Slicing\<close>

text \<open>\<open>slice::chunks\<close> for a positive size.\<close>

fun chunks :: "nat \<Rightarrow> 'a list \<Rightarrow> 'a list list" where
  "chunks n xs = (if xs = [] \<or> n = 0 then [] else take n xs # chunks n (drop n xs))"

declare chunks.simps [simp del]

definition split_metric_data_points :: "metric \<Rightarrow> nat \<Rightarrow> (metric \<times> nat) list" where
  "split_metric_data_points m max_points0 =
     (let max_points = max max_points0 1
      in case me_data m of
           DSum su \<Rightarrow>
             map (\<lambda>dp. (m\<lparr>me_data := DSum (su\<lparr>su_points := dp\<rparr>)\<rparr>, length dp))
               (chunks max_points (su_points su))
         | DGauge ps \<Rightarrow> map (\<lambda>dp. (m\<lparr>me_data := DGauge dp\<rparr>, length dp)) (chunks max_points ps)
         | DOther \<Rightarrow> [(m, 0)])"

definition wrap_batch :: "metric list \<Rightarrow> key_value list \<Rightarrow> string \<times> string \<Rightarrow> request" where
  "wrap_batch metrics resource scope =
     \<lparr> rq_resource_metrics =
         [\<lparr> rm_resource = resource, rm_scope_metrics = [\<lparr> sc_scope = scope, sc_metrics = metrics \<rparr>] \<rparr>] \<rparr>"

record slicer =
  sg_batches :: "request list"
  sg_current_metrics :: "metric list"
  sg_current_points :: nat

text \<open>The wrapping of a batch is the closure over the request's resource and scope.\<close>

definition flush :: "(metric list \<Rightarrow> request) \<Rightarrow> slicer \<Rightarrow> slicer" where
  "flush wrap sg =
     (if sg_current_metrics sg \<noteq> []
      then sg\<lparr> sg_batches := sg_batches sg @ [wrap (sg_current_metrics sg)], sg_current_metrics := [] \<rparr>
      else sg)"

definition place_chunk :: "nat \<Rightarrow> (metric list \<Rightarrow> request) \<Rightarrow> metric \<times> nat \<Rightarrow> slicer \<Rightarrow> slicer" where
  "place_chunk max_points wrap mc sg =
     (case mc of (m, count) \<Rightarrow>
        if sg_current_points sg + count \<le> max_points
        then sg\<lparr> sg_current_points := sg_current_points sg + count,
                 sg_current_metrics := sg_current_metrics sg @ [m] \<rparr>
        else (let sg1 = flush wrap sg
              in sg1\<lparr> sg_current_points := count, sg_current_metrics := sg_current_metrics sg1 @ [m] \<rparr>))"

definition slice_metric :: "nat \<Rightarrow> (metric list \<Rightarrow> request) \<Rightarrow> metric \<Rightarrow> slicer \<Rightarrow> slicer" where
  "slice_metric max_points wrap metric sg =
     (let pts = count_metric_data_points metric
      in if pts = 0 then sg\<lparr>sg_current_metrics := sg_current_metrics sg @ [metric]\<rparr>
         else if sg_current_points sg + pts \<le> max_points then
           sg\<lparr> sg_current_points := sg_current_points sg + pts,
               sg_current_metrics := sg_current_metrics sg @ [metric] \<rparr>
         else if pts \<le> max_points \<and> 0 < sg_current_points sg then
           sg\<lparr> sg_batches := sg_batches sg @ [wrap (sg_current_metrics sg)],
               sg_current_points := pts, sg_current_metrics := [metric] \<rparr>
         else
           (let sg1 = (if sg_current_metrics sg \<noteq> []
                       then (flush wrap sg)\<lparr>sg_current_points := 0\<rparr> else sg)
            in fold (place_chunk max_points wrap) (split_metric_data_points metric max_points) sg1))"

definition slice_into_batches :: "nat \<Rightarrow> request \<Rightarrow> request list" where
  "slice_into_batches max_batch_points request =
     (if max_batch_points = 0 then [request]
      else if rq_resource_metrics request = [] then [request]
      else if rm_scope_metrics (hd (rq_resource_metrics request)) = [] then [request]
      else let total_points = sum_list (map count_metric_data_points (request_metrics request))
           in if total_points \<le> max_batch_points then [request]
              else let rm = hd (rq_resource_metrics request);
                       wrap = (\<lambda>ms. wrap_batch ms (rm_resource rm) (sc_scope (hd (rm_scope_metrics rm))));
                       sg = fold (slice_metric max_batch_points wrap) (request_metrics request)
                              \<lparr> sg_batches = [], sg_current_metrics = [], sg_current_points = 0 \<rparr>;
                       batches = sg_batches (flush wrap sg)
                   in if batches = [] then [\<lparr> rq_resource_metrics = [] \<rparr>] else batches)"

section \<open>Slicing keeps the points and bounds the batches\<close>

lemma concat_chunks: "0 < n \<Longrightarrow> concat (chunks n xs) = xs"
  by (induction n xs rule: chunks.induct) (subst chunks.simps, auto)

lemma chunks_le: "c \<in> set (chunks n xs) \<Longrightarrow> length c \<le> n"
proof (induction n xs rule: chunks.induct)
  case (1 n xs)
  show ?case
    using 1(2) by (subst (asm) chunks.simps) (auto split: if_splits dest: 1(1) [rotated])
qed

text \<open>A metric without its points, and its points.\<close>

definition points_of :: "metric \<Rightarrow> number_data_point list" where
  "points_of m = (case me_data m of DSum su \<Rightarrow> su_points su | DGauge ps \<Rightarrow> ps | DOther \<Rightarrow> [])"

definition header_of :: "metric \<Rightarrow> metric" where
  "header_of m =
     m\<lparr>me_data := (case me_data m of DSum su \<Rightarrow> DSum (su\<lparr>su_points := []\<rparr>) | DGauge _ \<Rightarrow> DGauge [] | DOther \<Rightarrow> DOther)\<rparr>"

definition flat :: "metric list \<Rightarrow> (metric \<times> number_data_point) list" where
  "flat ms = concat (map (\<lambda>m. map (Pair (header_of m)) (points_of m)) ms)"

lemma flat_simps [simp]:
  "flat [] = []" "flat (m # ms) = map (Pair (header_of m)) (points_of m) @ flat ms"
  "flat (xs @ ys) = flat xs @ flat ys"
  by (simp_all add: flat_def)

lemma length_points_of: "length (points_of m) = count_metric_data_points m"
  by (simp add: points_of_def count_metric_data_points_def split: metric_data.splits)

lemma flat_no_points: "count_metric_data_points m = 0 \<Longrightarrow> flat [m] = []"
  using length_points_of [of m] by simp

lemma split_flat: "flat (map fst (split_metric_data_points m n)) = flat [m]"
proof -
  have pieces: "concat (map (\<lambda>c. map (Pair h) c) cs) = map (Pair h) (concat cs)" for h cs
    by (simp add: map_concat)
  show ?thesis
    by (cases "me_data m")
      (simp_all add: split_metric_data_points_def Let_def flat_def o_def header_of_def points_of_def
        pieces concat_chunks)
qed

lemma split_counts:
  "mc \<in> set (split_metric_data_points m n) \<Longrightarrow>
   snd mc = count_metric_data_points (fst mc) \<and> snd mc \<le> max n 1"
  by (cases "me_data m")
    (auto simp: split_metric_data_points_def Let_def count_metric_data_points_def dest: chunks_le)

text \<open>The invariant of the slicing loop.\<close>

definition batch_metrics :: "request list \<Rightarrow> metric list" where
  "batch_metrics bs = concat (map request_metrics bs)"

definition batch_ok :: "nat \<Rightarrow> (metric list \<Rightarrow> request) \<Rightarrow> request \<Rightarrow> bool" where
  "batch_ok n wrap b \<longleftrightarrow> metrics_points (request_metrics b) \<le> n \<and> b = wrap (request_metrics b)"

definition slicer_ok :: "nat \<Rightarrow> (metric list \<Rightarrow> request) \<Rightarrow> slicer \<Rightarrow> bool" where
  "slicer_ok n wrap sg \<longleftrightarrow>
     list_all (batch_ok n wrap) (sg_batches sg) \<and>
     metrics_points (sg_current_metrics sg) = sg_current_points sg \<and> sg_current_points sg \<le> n"

definition slicer_flat :: "slicer \<Rightarrow> (metric \<times> number_data_point) list" where
  "slicer_flat sg = flat (batch_metrics (sg_batches sg) @ sg_current_metrics sg)"

definition wraps :: "(metric list \<Rightarrow> request) \<Rightarrow> bool" where
  "wraps wrap \<longleftrightarrow> (\<forall>ms. request_metrics (wrap ms) = ms)"

lemma metrics_points_simps [simp]:
  "metrics_points [] = 0" "metrics_points (m # ms) = count_metric_data_points m + metrics_points ms"
  by (simp_all add: metrics_points_def)

lemma flush_ok:
  assumes "wraps wrap" "slicer_ok n wrap sg"
  shows "slicer_flat (flush wrap sg) = slicer_flat sg"
    and "list_all (batch_ok n wrap) (sg_batches (flush wrap sg))"
    and "sg_current_metrics (flush wrap sg) = []"
  using assms by (auto simp: flush_def slicer_flat_def batch_metrics_def slicer_ok_def wraps_def batch_ok_def)

lemma place_chunk_ok:
  assumes "wraps wrap" "slicer_ok n wrap sg" "count = count_metric_data_points m" "count \<le> n"
  shows "slicer_ok n wrap (place_chunk n wrap (m, count) sg) \<and>
    slicer_flat (place_chunk n wrap (m, count) sg) = slicer_flat sg @ flat [m]"
proof (cases "sg_current_points sg + count \<le> n")
  case True
  then show ?thesis
    using assms by (simp add: place_chunk_def slicer_ok_def slicer_flat_def metrics_points_append)
next
  case False
  note f = flush_ok [OF assms(1,2)]
  have "flat (batch_metrics (sg_batches (flush wrap sg))) = slicer_flat sg"
    using f(1,3) by (simp add: slicer_flat_def)
  then show ?thesis
    using False assms(3,4) f(2,3) by (simp add: place_chunk_def Let_def slicer_ok_def slicer_flat_def)
qed

lemma fold_place_chunk_ok:
  assumes "wraps wrap" "\<forall>mc \<in> set mcs. snd mc = count_metric_data_points (fst mc) \<and> snd mc \<le> n"
    "slicer_ok n wrap sg"
  shows "slicer_ok n wrap (fold (place_chunk n wrap) mcs sg) \<and>
    slicer_flat (fold (place_chunk n wrap) mcs sg) = slicer_flat sg @ flat (map fst mcs)"
  using assms(2,3)
proof (induction mcs arbitrary: sg)
  case (Cons mc mcs)
  obtain m c where mc: "mc = (m, c)" by (cases mc)
  have "slicer_ok n wrap (place_chunk n wrap mc sg)"
      "slicer_flat (place_chunk n wrap mc sg) = slicer_flat sg @ flat [m]"
    using place_chunk_ok [OF assms(1) Cons.prems(2), of c m] Cons.prems(1) by (auto simp: mc)
  moreover from this(1) have "slicer_ok n wrap (fold (place_chunk n wrap) mcs (place_chunk n wrap mc sg)) \<and>
      slicer_flat (fold (place_chunk n wrap) mcs (place_chunk n wrap mc sg)) =
      slicer_flat (place_chunk n wrap mc sg) @ flat (map fst mcs)"
    by (rule Cons.IH [rotated]) (use Cons.prems(1) in \<open>metis list.set_intros(2)\<close>)
  ultimately show ?case by (simp add: mc)
qed simp

lemma slice_metric_ok:
  assumes "wraps wrap" "0 < n" "slicer_ok n wrap sg"
  shows "slicer_ok n wrap (slice_metric n wrap m sg) \<and>
    slicer_flat (slice_metric n wrap m sg) = slicer_flat sg @ flat [m]"
proof -
  let ?pts = "count_metric_data_points m"
  consider (empty) "?pts = 0" | (fits) "?pts \<noteq> 0" "sg_current_points sg + ?pts \<le> n"
    | (next_batch) "?pts \<noteq> 0" "\<not> sg_current_points sg + ?pts \<le> n" "?pts \<le> n" "0 < sg_current_points sg"
    | (split) "?pts \<noteq> 0" "\<not> sg_current_points sg + ?pts \<le> n" "\<not> (?pts \<le> n \<and> 0 < sg_current_points sg)"
    by (cases "?pts = 0"; cases "sg_current_points sg + ?pts \<le> n";
        cases "?pts \<le> n \<and> 0 < sg_current_points sg") auto
  then show ?thesis
  proof cases
    case empty
    then show ?thesis
      using assms(3) flat_no_points [OF empty]
      by (simp add: slice_metric_def slicer_ok_def slicer_flat_def metrics_points_append)
  next
    case fits
    then show ?thesis
      using assms(3) by (simp add: slice_metric_def slicer_ok_def slicer_flat_def metrics_points_append)
  next
    case next_batch
    then show ?thesis
      using assms
      by (simp add: slice_metric_def slicer_ok_def slicer_flat_def wraps_def batch_metrics_def batch_ok_def)
  next
    case split
    let ?sg1 = "if sg_current_metrics sg \<noteq> [] then (flush wrap sg)\<lparr>sg_current_points := 0\<rparr> else sg"
    note f = flush_ok [OF assms(1,3)]
    have sg1: "slicer_ok n wrap ?sg1" "slicer_flat ?sg1 = slicer_flat sg"
      using f assms(3) by (auto simp: slicer_ok_def slicer_flat_def)
    have counts: "\<forall>mc \<in> set (split_metric_data_points m n).
        snd mc = count_metric_data_points (fst mc) \<and> snd mc \<le> n"
    proof
      fix mc assume "mc \<in> set (split_metric_data_points m n)"
      then show "snd mc = count_metric_data_points (fst mc) \<and> snd mc \<le> n"
        using split_counts [of mc m n] assms(2) by simp
    qed
    have "slice_metric n wrap m sg = fold (place_chunk n wrap) (split_metric_data_points m n) ?sg1"
      using split by (simp add: slice_metric_def Let_def)
    then show ?thesis
      using fold_place_chunk_ok [OF assms(1) counts sg1(1)] sg1(2) by (simp only: split_flat)
  qed
qed

lemma fold_slice_metric_ok:
  assumes "wraps wrap" "0 < n"
  shows "slicer_ok n wrap sg \<Longrightarrow> slicer_ok n wrap (fold (slice_metric n wrap) ms sg) \<and>
    slicer_flat (fold (slice_metric n wrap) ms sg) = slicer_flat sg @ flat ms"
proof (induction ms arbitrary: sg)
  case (Cons m ms)
  then show ?case using slice_metric_ok [OF assms Cons.prems, of m] by simp
qed simp

lemma request_metrics_wrap [simp]: "request_metrics (wrap_batch ms r s) = ms"
  by (simp add: request_metrics_def wrap_batch_def)

lemma length_flat: "length (flat ms) = metrics_points ms"
  by (induction ms) (simp_all add: length_points_of)

lemma slice_into_batches_ok:
  assumes "0 < n"
  shows "list_all (batch_ok n (\<lambda>ms. wrap_batch ms r s)) (slice_into_batches n (wrap_batch ms r s)) \<and>
    flat (batch_metrics (slice_into_batches n (wrap_batch ms r s))) = flat ms"
proof (cases "metrics_points ms \<le> n")
  case True
  then have "slice_into_batches n (wrap_batch ms r s) = [wrap_batch ms r s]"
    using assms by (simp add: slice_into_batches_def metrics_points_def [symmetric])
  then show ?thesis using True by (simp add: batch_ok_def batch_metrics_def)
next
  case False
  let ?wrap = "\<lambda>ms. wrap_batch ms r s"
  let ?sg = "fold (slice_metric n ?wrap) ms \<lparr> sg_batches = [], sg_current_metrics = [], sg_current_points = 0 \<rparr>"
  have w: "wraps ?wrap" by (simp add: wraps_def)
  have sg: "slicer_ok n ?wrap ?sg" "slicer_flat ?sg = flat ms"
    using fold_slice_metric_ok [OF w assms, of "\<lparr> sg_batches = [], sg_current_metrics = [], sg_current_points = 0 \<rparr>" ms]
    by (simp_all add: slicer_ok_def slicer_flat_def batch_metrics_def)
  note f = flush_ok [OF w sg(1)]
  have content: "flat (batch_metrics (sg_batches (flush ?wrap ?sg))) = flat ms"
    using f(1,3) sg(2) by (simp add: slicer_flat_def)
  have "sg_batches (flush ?wrap ?sg) \<noteq> []"
  proof
    assume "sg_batches (flush ?wrap ?sg) = []"
    then have "flat ms = []" using content by (simp add: batch_metrics_def)
    then show False using False length_flat [of ms] by simp
  qed
  moreover have "rm_resource (hd (rq_resource_metrics (wrap_batch ms r s))) = r"
      "sc_scope (hd (rm_scope_metrics (hd (rq_resource_metrics (wrap_batch ms r s))))) = s"
      "rm_scope_metrics (hd (rq_resource_metrics (wrap_batch ms r s))) \<noteq> []"
      "rq_resource_metrics (wrap_batch ms r s) \<noteq> []"
    by (simp_all add: wrap_batch_def)
  ultimately have "slice_into_batches n (wrap_batch ms r s) = sg_batches (flush ?wrap ?sg)"
    using False assms by (simp add: slice_into_batches_def metrics_points_def [symmetric] Let_def)
  then show ?thesis using content f(2) by simp
qed

section \<open>Properties\<close>

text \<open>
  C11. Slicing a request with one resource and scope, as the exporter builds them: every batch
  has at most the configured number of points and carries the request's resource and scope,
  and the batches together hold the request's points in their order, each under the name,
  the unit and the kind of its metric.
\<close>

theorem slices_exact:
  assumes "0 < n"
  shows "(\<forall>b \<in> set (slice_into_batches n (wrap_batch ms r s)).
      metrics_points (request_metrics b) \<le> n \<and> b = wrap_batch (request_metrics b) r s) \<and>
    flat (batch_metrics (slice_into_batches n (wrap_batch ms r s))) = flat ms"
  using slice_into_batches_ok [OF assms, of r s ms] by (simp add: list_all_iff batch_ok_def)

theorem slices_exact_witness:
  "flat (batch_metrics (slice_into_batches 2 (wrap_batch
      [make_sum_metric ''a'' ''u'' 1 [] 0, sum_metric ''b'' [] ''u'' (replicate 5 (int_point [] 0 0 7))]
      [] (''x'', ''y'')))) =
   flat [make_sum_metric ''a'' ''u'' 1 [] 0, sum_metric ''b'' [] ''u'' (replicate 5 (int_point [] 0 0 7))]"
  by (rule slices_exact [THEN conjunct2]) simp

text \<open>The points of the batches add up to those of the request.\<close>

lemma slices_points:
  "sum_list (map (\<lambda>b. metrics_points (request_metrics b)) (slice_into_batches n (wrap_batch ms r s))) =
   metrics_points ms"
proof (cases "n = 0")
  case True
  then show ?thesis by (simp add: slice_into_batches_def)
next
  case False
  have "sum_list (map (\<lambda>b. metrics_points (request_metrics b)) bs) = length (flat (batch_metrics bs))" for bs
    by (induction bs) (simp_all add: batch_metrics_def length_flat)
  moreover have "length (flat (batch_metrics (slice_into_batches n (wrap_batch ms r s)))) = length (flat ms)"
    using slice_into_batches_ok [of n r s ms] False by simp
  ultimately show ?thesis by (simp only: length_flat)
qed

end
