(* ===== verification/OtlpSend.thy ===== *)
theory OtlpSend
  imports OtlpExport
begin

text \<open>
  The OTLP exporter as a plugin, \<open>src/frontend/src/otlp.rs\<close>: its construction, one batch
  with retries and backoff, the export of all batches with its accounting, and its place
  under the exporter framework. The network answers per batch and attempt.
\<close>

section \<open>Construction\<close>

record host_env =
  he_version :: string
  he_hostname :: "string option"
  he_arch :: string
  he_machine_id :: "string option"
  he_read_file :: "string \<Rightarrow> string option"
  he_new_uuid :: string

text \<open>The identifier, and the file written when a new one was made.\<close>

definition load_or_create_instance_id :: "host_env \<Rightarrow> string \<Rightarrow> string \<times> (string \<times> string) option" where
  "load_or_create_instance_id env path =
     (case map_option trim (he_read_file env path) of
        Some i \<Rightarrow> if i \<noteq> [] then (i, None) else (he_new_uuid env, Some (path, he_new_uuid env))
      | None \<Rightarrow> (he_new_uuid env, Some (path, he_new_uuid env)))"

definition parse_or :: "nat \<Rightarrow> string option \<Rightarrow> nat" where
  "parse_or d text =
     (case Option.bind text (\<lambda>v. res_ok (parse_u64 v)) of None \<Rightarrow> d | Some n \<Rightarrow> n)"

definition resource_attribute :: "string \<times> string \<Rightarrow> key_value option" where
  "resource_attribute kv =
     (case kv of (k, v) \<Rightarrow>
        (case strip_prefix ''resource.'' k of
           Some attr_key \<Rightarrow> if attr_key \<noteq> [] then Some (kv_string attr_key v) else None
         | None \<Rightarrow> None))"

definition otlp_new :: "host_env \<Rightarrow> exporter_config \<Rightarrow> string + otlp_exporter" where
  "otlp_new env cfg =
     (let extra = map_of (xc_extra cfg);
          endpoint = (case extra ''endpoint'' of None \<Rightarrow> [] | Some e \<Rightarrow> e)
      in if endpoint = [] then Err (''OTLP exporter requires a non-empty '' @ [CHR 0x27] @ ''endpoint'' @ [CHR 0x27])
         else
           let instance_id_path = extra ''instance_id_path'';
               id_path = (case instance_id_path of None \<Rightarrow> ''/var/lib/infmon/instance_id'' | Some p \<Rightarrow> p);
               machine_id = (case map_option trim (he_machine_id env) of
                   None \<Rightarrow> [] | Some i \<Rightarrow> if i \<noteq> [] then [kv_string ''host.id'' i] else []);
               resource_attrs =
                 [kv_string ''service.name'' ''infmon-frontend'',
                  kv_string ''service.namespace'' ''infmon'',
                  kv_string ''service.version'' (he_version env)] @
                 (case he_hostname env of None \<Rightarrow> [] | Some h \<Rightarrow> [kv_string ''host.name'' h]) @
                 [kv_string ''host.arch'' (he_arch env)] @ machine_id @
                 [kv_string ''service.instance.id'' (fst (load_or_create_instance_id env id_path))] @
                 List.map_filter resource_attribute (xc_extra cfg)
           in Ok \<lparr> ox_name = xc_name cfg, ox_endpoint = endpoint, ox_instance_id_path = instance_id_path,
                   ox_max_export_points_per_tick =
                     parse_or DEFAULT_MAX_EXPORT_POINTS_PER_TICK (extra ''max_export_points_per_tick''),
                   ox_max_batch_points = parse_or DEFAULT_MAX_BATCH_POINTS (extra ''max_batch_points''),
                   ox_export_timeout = xc_export_timeout cfg, ox_resource_attrs = resource_attrs,
                   ox_client = False, ox_metrics = default_metrics \<rparr>)"

definition otlp_reload :: "exporter_config \<Rightarrow> config_error + unit" where
  "otlp_reload cfg = Err (ConfigError ''OTLP exporter requires restart to apply config changes'')"

section \<open>One batch\<close>

datatype grpc_code =
    Unavailable | DeadlineExceeded | ResourceExhausted | Aborted | OtherCode int

definition is_retryable :: "grpc_code \<Rightarrow> bool" where
  "is_retryable c \<longleftrightarrow> c \<in> {Unavailable, DeadlineExceeded, ResourceExhausted, Aborted}"

datatype rpc_outcome = RpcOk | RpcErr grpc_code string | RpcElapsed

record attempt_world =
  aw_connect :: "string + unit"
  aw_rpc :: rpc_outcome

text \<open>The URI the lazy connection goes to.\<close>

definition endpoint_uri :: "string \<Rightarrow> string" where
  "endpoint_uri endpoint =
     (if strip_prefix ''http://'' endpoint \<noteq> None \<or> strip_prefix ''https://'' endpoint \<noteq> None
      then endpoint else ''http://'' @ endpoint)"

definition get_client :: "attempt_world \<Rightarrow> bool \<Rightarrow> (string + unit) \<times> bool" where
  "get_client w cached =
     (if cached then (Ok (), True)
      else case aw_connect w of Ok _ \<Rightarrow> (Ok (), True) | Err e \<Rightarrow> (Err e, False))"

text \<open>The bound of the jittered wait before a retry.\<close>

definition backoff_max :: "nat \<Rightarrow> duration" where
  "backoff_max attempt = min RETRY_CAP (dur_mul RETRY_BASE (2 ^ attempt))"

text \<open>
  The attempts left, the error of the last one and whether a client is cached; the result,
  the client afterwards and the bounds of the waits taken.
\<close>

fun try_attempts ::
    "(nat \<Rightarrow> attempt_world) \<Rightarrow> nat list \<Rightarrow> exporter_error option \<Rightarrow> bool \<Rightarrow>
     (exporter_error + unit) \<times> bool \<times> duration list" where
  "try_attempts w [] last_err client =
     (Err (case last_err of Some e \<Rightarrow> e | None \<Rightarrow> Timeout), client, [])"
| "try_attempts w (attempt # attempts) last_err client =
     (let wait = (if 0 < attempt then [backoff_max attempt] else []);
          (connected, client1) = get_client (w attempt) client;
          (res, client2, waits) =
            (case connected of
               Err e \<Rightarrow> try_attempts w attempts (Some (Transient e)) client1
             | Ok _ \<Rightarrow>
                 (case aw_rpc (w attempt) of
                    RpcOk \<Rightarrow> (Ok (), client1, [])
                  | RpcErr code msg \<Rightarrow>
                      if is_retryable code then try_attempts w attempts (Some (Transient msg)) False
                      else (Err (Permanent msg), client1, [])
                  | RpcElapsed \<Rightarrow> try_attempts w attempts (Some Timeout) False))
      in (res, client2, wait @ waits))"

definition export_batch_with_retry ::
    "(nat \<Rightarrow> attempt_world) \<Rightarrow> bool \<Rightarrow> (exporter_error + unit) \<times> bool \<times> duration list" where
  "export_batch_with_retry w client = try_attempts w [0..<MAX_RETRIES + 1] None client"

section \<open>All batches\<close>

definition batch_points :: "request \<Rightarrow> nat" where
  "batch_points b = sum_list (map count_metric_data_points (request_metrics b))"

definition map_metrics :: "(exporter_metrics \<Rightarrow> exporter_metrics) \<Rightarrow> otlp_exporter \<Rightarrow> otlp_exporter" where
  "map_metrics f ox = ox\<lparr>ox_metrics := f (ox_metrics ox)\<rparr>"

definition count_sent :: "exporter_metrics \<Rightarrow> exporter_metrics" where
  "count_sent m = m\<lparr>em_batches_sent := em_batches_sent m + 1\<rparr>"

definition count_points :: "nat \<Rightarrow> exporter_metrics \<Rightarrow> exporter_metrics" where
  "count_points n m = m\<lparr>em_points_emitted := em_points_emitted m + word_of_nat n\<rparr>"

text \<open>
  The loop over the batches with the points emitted and the failure flag so far: \<open>Err\<close> is the
  return on a permanent error, with the points emitted before it.
\<close>

fun send_batches ::
    "(nat \<Rightarrow> nat \<Rightarrow> attempt_world) \<Rightarrow> nat \<Rightarrow> request list \<Rightarrow> nat \<Rightarrow> bool \<Rightarrow> otlp_exporter \<Rightarrow>
     (string \<times> nat + nat \<times> bool) \<times> otlp_exporter" where
  "send_batches w i [] emitted_points failed ox = (Ok (emitted_points, failed), ox)"
| "send_batches w i (b # bs) emitted_points failed ox =
     (case export_batch_with_retry (w i) (ox_client ox) of
        (res, client, waits) \<Rightarrow>
          (let ox1 = ox\<lparr>ox_client := client\<rparr>
           in case res of
                Ok _ \<Rightarrow> send_batches w (i + 1) bs (emitted_points + batch_points b) failed
                          (map_metrics count_sent ox1)
              | Err (Permanent e) \<Rightarrow> (Err (e, emitted_points), map_metrics count_non_retryable ox1)
              | Err _ \<Rightarrow> send_batches w (i + 1) bs emitted_points True (map_metrics count_transient ox1)))"

text \<open>The elapsed time is the bits of the float that is stored.\<close>

definition otlp_export ::
    "build_env \<Rightarrow> (nat \<Rightarrow> nat \<Rightarrow> attempt_world) \<Rightarrow> u64 \<Rightarrow> flow_stats_snapshot \<Rightarrow> otlp_exporter \<Rightarrow>
     (exporter_error + unit) \<times> otlp_exporter" where
  "otlp_export env w elapsed snap ox =
     (case build_request env snap ox of
        ((request, points_built), ox1) \<Rightarrow>
          (case send_batches w 0 (slice_into_batches (ox_max_batch_points ox) request) 0 False ox1 of
             (Err (e, emitted_points), ox2) \<Rightarrow>
               (let ox3 = (if 0 < emitted_points then map_metrics (count_points emitted_points) ox2 else ox2)
                in (Err (Permanent e), map_metrics (set_export_duration elapsed) ox3))
           | (Ok (emitted_points, failed), ox2) \<Rightarrow>
               (let ox3 = map_metrics (set_export_duration elapsed) ox2
                in if \<not> failed then (Ok (), map_metrics (count_points points_built) ox3)
                   else (Err (Transient ''some batches failed after retries''),
                         if 0 < emitted_points then map_metrics (count_points emitted_points) ox3 else ox3))))"

section \<open>The framework's deadline\<close>

text \<open>
  The thread runs the export under a deadline of its own (\<open>exporter.rs\<close>): when that passes
  while the export waits for something, the export is dropped there, wherever it is. It can
  wait before a retry, for a connection when none is cached, and for the answer to a call;
  \<open>cutoff\<close> is the batch, the attempt and the wait at which the deadline passes.
\<close>

datatype await = Waiting | Connecting | Calling

text \<open>The client left behind when a batch gets to the wait; nothing when it ends before that.\<close>

fun cancelled_attempts :: "(nat \<Rightarrow> attempt_world) \<Rightarrow> nat list \<Rightarrow> nat \<Rightarrow> await \<Rightarrow> bool \<Rightarrow> bool option" where
  "cancelled_attempts w [] a at client = None"
| "cancelled_attempts w (attempt # attempts) a at client =
     (if attempt = a \<and> at = Waiting then (if 0 < a then Some client else None)
      else if attempt = a \<and> at = Connecting then (if client then None else Some False)
      else case get_client (w attempt) client of
        (Err e, client1) \<Rightarrow> if attempt = a then None else cancelled_attempts w attempts a at client1
      | (Ok _, client1) \<Rightarrow>
          if attempt = a then Some client1
          else case aw_rpc (w attempt) of
            RpcOk \<Rightarrow> None
          | RpcErr code msg \<Rightarrow> if is_retryable code then cancelled_attempts w attempts a at False else None
          | RpcElapsed \<Rightarrow> cancelled_attempts w attempts a at False)"

fun cancelled_batches ::
    "(nat \<Rightarrow> nat \<Rightarrow> attempt_world) \<Rightarrow> nat \<Rightarrow> request list \<Rightarrow> nat \<times> nat \<times> await \<Rightarrow> otlp_exporter \<Rightarrow>
     otlp_exporter option" where
  "cancelled_batches w i [] cutoff ox = None"
| "cancelled_batches w i (b # bs) cutoff ox =
     (case cutoff of (j, a, at) \<Rightarrow>
        if i = j
        then map_option (\<lambda>client. ox\<lparr>ox_client := client\<rparr>)
               (cancelled_attempts (w i) [0..<MAX_RETRIES + 1] a at (ox_client ox))
        else case export_batch_with_retry (w i) (ox_client ox) of
          (res, client, waits) \<Rightarrow>
            (let ox1 = ox\<lparr>ox_client := client\<rparr>
             in case res of
                  Ok _ \<Rightarrow> cancelled_batches w (i + 1) bs cutoff (map_metrics count_sent ox1)
                | Err (Permanent e) \<Rightarrow> None
                | Err _ \<Rightarrow> cancelled_batches w (i + 1) bs cutoff (map_metrics count_transient ox1)))"

definition otlp_cancelled ::
    "build_env \<Rightarrow> (nat \<Rightarrow> nat \<Rightarrow> attempt_world) \<Rightarrow> nat \<times> nat \<times> await \<Rightarrow> flow_stats_snapshot \<Rightarrow>
     otlp_exporter \<Rightarrow> otlp_exporter option" where
  "otlp_cancelled env w cutoff snap ox =
     (case build_request env snap ox of
        ((request, points_built), ox1) \<Rightarrow>
          cancelled_batches w 0 (slice_into_batches (ox_max_batch_points ox) request) cutoff ox1)"

text \<open>
  The plugin under the thread: the deadline either passes at a wait the export gets to, or the
  export returns.
\<close>

definition otlp_plugin ::
    "build_env \<Rightarrow> (nat \<Rightarrow> nat \<Rightarrow> attempt_world) \<Rightarrow> u64 \<Rightarrow> (nat \<times> nat \<times> await) option \<Rightarrow>
     otlp_exporter exporter" where
  "otlp_plugin env w elapsed deadline =
     \<lparr> ex_export = (\<lambda>snap ox.
         case Option.bind deadline (\<lambda>cutoff. otlp_cancelled env w cutoff snap ox) of
           Some ox' \<Rightarrow> (Elapsed, ox')
         | None \<Rightarrow> (case otlp_export env w elapsed snap ox of (r, ox') \<Rightarrow> (Returned r, ox'))),
       ex_map_metrics = map_metrics,
       ex_shutdown = (\<lambda>ox. ox\<lparr>ox_client := False\<rparr>) \<rparr>"

section \<open>What a retried batch comes to\<close>

text \<open>One attempt: its result and the client afterwards.\<close>

definition attempt :: "attempt_world \<Rightarrow> bool \<Rightarrow> (exporter_error + unit) \<times> bool" where
  "attempt w client =
     (if \<not> client \<and> (\<exists>e. aw_connect w = Err e)
      then (Err (Transient (case aw_connect w of Err e \<Rightarrow> e | Ok _ \<Rightarrow> [])), False)
      else case aw_rpc w of
        RpcOk \<Rightarrow> (Ok (), True)
      | RpcErr code msg \<Rightarrow>
          if is_retryable code then (Err (Transient msg), False) else (Err (Permanent msg), True)
      | RpcElapsed \<Rightarrow> (Err Timeout, False))"

fun retries :: "exporter_error + unit \<Rightarrow> bool" where
  "retries (Ok _) = False"
| "retries (Err (Permanent _)) = False"
| "retries (Err _) = True"

fun attempt_results :: "(nat \<Rightarrow> attempt_world) \<Rightarrow> nat list \<Rightarrow> bool \<Rightarrow> (exporter_error + unit) list" where
  "attempt_results w [] client = []"
| "attempt_results w (a # as) client =
     (case attempt (w a) client of
        (r, client') \<Rightarrow> r # (if retries r then attempt_results w as client' else []))"

definition wait_bounds :: "nat list \<Rightarrow> duration list" where
  "wait_bounds as = map backoff_max (filter ((<) 0) as)"

lemma get_client_cases:
  obtains (connected) "get_client w c = (Ok (), True)" "\<not> (\<not> c \<and> (\<exists>e. aw_connect w = Err e))"
  | (failed) e where "get_client w c = (Err e, False)" "\<not> c" "aw_connect w = Err e"
  by (cases c; cases "aw_connect w") (auto simp: get_client_def)

lemma try_attempts_step:
  "try_attempts w (a # as) last_err c =
     (case attempt (w a) c of
        (r, c') \<Rightarrow>
          (let wait = (if 0 < a then [backoff_max a] else [])
           in case r of
                Err (Permanent m) \<Rightarrow> (r, c', wait)
              | Ok _ \<Rightarrow> (r, c', wait)
              | Err e \<Rightarrow> (case try_attempts w as (Some e) c' of
                            (res, c'', waits) \<Rightarrow> (res, c'', wait @ waits))))"
proof (cases rule: get_client_cases [where w = "w a" and c = c])
  case connected
  then show ?thesis
    by (cases "aw_rpc (w a)") (auto simp: attempt_def Let_def split: prod.splits)
next
  case (failed e)
  then show ?thesis by (simp add: attempt_def Let_def split: prod.splits)
qed

declare try_attempts.simps(2) [simp del]

lemma try_attempts_results:
  "try_attempts w as last_err c = (res, c', waits) \<Longrightarrow>
   (let rs = attempt_results w as c
    in res = (if rs = [] then Err (case last_err of Some e \<Rightarrow> e | None \<Rightarrow> Timeout) else last rs) \<and>
       waits = wait_bounds (take (length rs) as) \<and>
       list_all retries (butlast rs) \<and>
       (length rs = length as \<or> rs \<noteq> [] \<and> \<not> retries (last rs)))"
proof (induction as arbitrary: last_err c res c' waits)
  case Nil
  then show ?case by (simp add: wait_bounds_def)
next
  case (Cons a as)
  obtain r c1 where at: "attempt (w a) c = (r, c1)" by fastforce
  show ?case
  proof (cases "retries r")
    case True
    then obtain e where r: "r = Err e" "\<forall>m. e \<noteq> Permanent m" by (cases r rule: retries.cases) auto
    obtain res1 c2 waits1 where rest: "try_attempts w as (Some e) c1 = (res1, c2, waits1)"
      by (metis prod_cases3)
    have "res = res1" "waits = (if 0 < a then [backoff_max a] else []) @ waits1"
      using Cons.prems at r rest
      by (auto simp: try_attempts_step Let_def split: exporter_error.splits)
    then show ?thesis
      using Cons.IH [OF rest] at True r by (auto simp: Let_def wait_bounds_def)
  next
    case False
    then have "res = r" "waits = (if 0 < a then [backoff_max a] else [])"
      using Cons.prems at
      by (auto simp: try_attempts_step Let_def split: exporter_error.splits sum.splits)
    then show ?thesis using at False by (simp add: wait_bounds_def)
  qed
qed

lemma attempt_results_length: "length (attempt_results w as c) \<le> length as"
  by (induction as arbitrary: c) (auto split: prod.splits)

lemma attempt_results_nonempty: "as \<noteq> [] \<Longrightarrow> attempt_results w as c \<noteq> []"
  by (cases as) (auto split: prod.splits)

lemma wait_bounds_attempts: "k \<le> 4 \<Longrightarrow> wait_bounds (take k [0..<4]) = map backoff_max [1..<k]"
proof -
  assume "k \<le> 4"
  then consider "k = 0" | "k = 1" | "k = 2" | "k = 3" | "k = 4" by linarith
  then show ?thesis by cases (simp_all add: wait_bounds_def upt_rec numeral_eq_Suc)
qed

section \<open>The accounting of an export\<close>

fun batch_results :: "(nat \<Rightarrow> nat \<Rightarrow> attempt_world) \<Rightarrow> nat \<Rightarrow> nat \<Rightarrow> bool \<Rightarrow> (exporter_error + unit) list" where
  "batch_results w i 0 client = []"
| "batch_results w i (Suc n) client =
     (case export_batch_with_retry (w i) client of
        (r, client', waits) \<Rightarrow>
          r # (if (\<exists>m. r = Err (Permanent m)) then [] else batch_results w (i + 1) n client'))"

definition oks :: "(exporter_error + unit) list \<Rightarrow> nat" where
  "oks rs = length (filter (\<lambda>r. r = Ok ()) rs)"

definition permanents :: "(exporter_error + unit) list \<Rightarrow> nat" where
  "permanents rs = length (filter (\<lambda>r. \<exists>m. r = Err (Permanent m)) rs)"

definition transients :: "(exporter_error + unit) list \<Rightarrow> nat" where
  "transients rs = length (filter retries rs)"

definition sent_points :: "request list \<Rightarrow> (exporter_error + unit) list \<Rightarrow> nat" where
  "sent_points bs rs = sum_list (map (\<lambda>(b, r). if r = Ok () then batch_points b else 0) (zip bs rs))"

lemma counter_simps [simp]:
  "oks [] = 0" "permanents [] = 0" "transients [] = 0" "sent_points bs [] = 0"
  "oks (Ok () # rs) = Suc (oks rs)" "oks (Err e # rs) = oks rs"
  "permanents (Ok () # rs) = permanents rs" "permanents (Err (Permanent m) # rs) = Suc (permanents rs)"
  "permanents (Err (Transient m) # rs) = permanents rs" "permanents (Err Timeout # rs) = permanents rs"
  "transients (Ok () # rs) = transients rs" "transients (Err (Permanent m) # rs) = transients rs"
  "transients (Err (Transient m) # rs) = Suc (transients rs)"
  "transients (Err Timeout # rs) = Suc (transients rs)"
  "sent_points (b # bs) (Ok () # rs) = batch_points b + sent_points bs rs"
  "sent_points (b # bs) (Err e # rs) = sent_points bs rs"
  by (simp_all add: oks_def permanents_def transients_def sent_points_def)

text \<open>The counters after a number of batches.\<close>

definition account :: "(exporter_error + unit) list \<Rightarrow> exporter_metrics \<Rightarrow> exporter_metrics" where
  "account rs m =
     m\<lparr> em_batches_sent := em_batches_sent m + word_of_nat (oks rs),
        em_batches_failed_non_retryable :=
          em_batches_failed_non_retryable m + word_of_nat (permanents rs),
        em_batches_failed_transient := em_batches_failed_transient m + word_of_nat (transients rs) \<rparr>"

lemma account_simps:
  "account [] m = m"
  "account (Ok () # rs) m = account rs (count_sent m)"
  "account (Err (Permanent e) # rs) m = account rs (count_non_retryable m)"
  "account (Err (Transient e) # rs) m = account rs (count_transient m)"
  "account (Err Timeout # rs) m = account rs (count_transient m)"
  by (simp_all add: account_def count_sent_def count_non_retryable_def count_transient_def)

text \<open>What the loop over the batches comes to, given the results of the batches.\<close>

definition sends_ok ::
    "request list \<Rightarrow> (exporter_error + unit) list \<Rightarrow> nat \<Rightarrow> bool \<Rightarrow> otlp_exporter \<Rightarrow>
     (string \<times> nat + nat \<times> bool) \<Rightarrow> otlp_exporter \<Rightarrow> bool" where
  "sends_ok bs rs p failed ox r ox' \<longleftrightarrow>
     ox_metrics ox' = account rs (ox_metrics ox) \<and>
     (case r of
        Ok (p', failed') \<Rightarrow> permanents rs = 0 \<and> length rs = length bs \<and>
          p' = p + sent_points bs rs \<and> (failed' \<longleftrightarrow> failed \<or> 0 < transients rs)
      | Err (e, p') \<Rightarrow> permanents rs = 1 \<and> rs \<noteq> [] \<and> last rs = Err (Permanent e) \<and>
          p' = p + sent_points bs rs)"

lemma sends_ok_steps:
  assumes "ox_metrics ox1 = ox_metrics ox"
  shows "sends_ok bs rs (p + batch_points b) failed (map_metrics count_sent ox1) r ox' \<Longrightarrow>
      sends_ok (b # bs) (Ok () # rs) p failed ox r ox'"
    and "sends_ok bs rs p True (map_metrics count_transient ox1) r ox' \<Longrightarrow>
      sends_ok (b # bs) (Err (Transient m) # rs) p failed ox r ox'"
    and "sends_ok bs rs p True (map_metrics count_transient ox1) r ox' \<Longrightarrow>
      sends_ok (b # bs) (Err Timeout # rs) p failed ox r ox'"
    and "sends_ok (b # bs) [Err (Permanent e)] p failed ox (Err (e, p)) (map_metrics count_non_retryable ox1)"
  using assms by (auto simp: sends_ok_def account_simps map_metrics_def split: sum.splits)

lemma send_batches_account:
  "send_batches w i bs p failed ox = (r, ox') \<Longrightarrow>
   sends_ok bs (batch_results w i (length bs) (ox_client ox)) p failed ox r ox'"
proof (induction bs arbitrary: i p failed ox)
  case Nil
  then show ?case by (auto simp: sends_ok_def account_simps)
next
  case (Cons b bs)
  obtain res c waits where b: "export_batch_with_retry (w i) (ox_client ox) = (res, c, waits)"
    by (metis prod_cases3)
  let ?ox1 = "ox\<lparr>ox_client := c\<rparr>"
  have same: "ox_metrics ?ox1 = ox_metrics ox" by simp
  have client: "ox_client (map_metrics f ?ox1) = c" for f by (simp add: map_metrics_def)
  show ?case
  proof (cases res)
    case (Inr u)
    then have "send_batches w (i + 1) bs (p + batch_points b) failed (map_metrics count_sent ?ox1) = (r, ox')"
      using Cons.prems b by simp
    from sends_ok_steps(1) [OF same Cons.IH [OF this, unfolded client]] show ?thesis
      using b Inr by simp
  next
    case (Inl e)
    have rest: "send_batches w (i + 1) bs p True (map_metrics count_transient ?ox1) = (r, ox')"
      if "\<nexists>m. e = Permanent m"
      using Cons.prems b Inl that by (cases e) auto
    show ?thesis
    proof (cases e)
      case (Permanent m)
      then show ?thesis
        using Cons.prems b Inl sends_ok_steps(4) [OF same] by auto
    next
      case (Transient m)
      with rest have "send_batches w (i + 1) bs p True (map_metrics count_transient ?ox1) = (r, ox')"
        by simp
      from sends_ok_steps(2) [OF same Cons.IH [OF this, unfolded client]] show ?thesis
        using b Inl Transient by simp
    next
      case Timeout
      with rest have "send_batches w (i + 1) bs p True (map_metrics count_transient ?ox1) = (r, ox')"
        by simp
      from sends_ok_steps(3) [OF same Cons.IH [OF this, unfolded client]] show ?thesis
        using b Inl Timeout by simp
    qed
  qed
qed

lemma batch_points_eq: "batch_points = (\<lambda>b. metrics_points (request_metrics b))"
  by (rule ext) (simp add: batch_points_def metrics_points_def)

lemma build_request_metrics:
  assumes "build_request env snap ox = ((rq, built), ox1)"
  shows "em_batches_sent (ox_metrics ox1) = em_batches_sent (ox_metrics ox)"
    "em_batches_failed_non_retryable (ox_metrics ox1) = em_batches_failed_non_retryable (ox_metrics ox)"
    "em_batches_failed_transient (ox_metrics ox1) = em_batches_failed_transient (ox_metrics ox)"
    "em_points_emitted (ox_metrics ox1) = em_points_emitted (ox_metrics ox)"
    "ox_client ox1 = ox_client ox"
    "sum_list (map batch_points (slice_into_batches n rq)) = built + 10"
    "em_points_dropped (ox_metrics ox1) = em_points_dropped (ox_metrics ox) + word_of_nat
      (3 * (sum_list (counts_of snap) -
        sum_list (emitted (ox_max_export_points_per_tick ox) (counts_of snap))))"
    "em_attrs_truncated (ox_metrics ox1) = em_attrs_truncated (ox_metrics ox) +
      word_of_nat (truncations (ox_max_export_points_per_tick ox) snap)"
    "em_ticks_dropped (ox_metrics ox1) = em_ticks_dropped (ox_metrics ox)"
    "em_batches_dropped (ox_metrics ox1) = em_batches_dropped (ox_metrics ox)"
    "em_queue_depth (ox_metrics ox1) = em_queue_depth (ox_metrics ox)"
proof -
  show "em_batches_sent (ox_metrics ox1) = em_batches_sent (ox_metrics ox)"
    "em_batches_failed_non_retryable (ox_metrics ox1) = em_batches_failed_non_retryable (ox_metrics ox)"
    "em_batches_failed_transient (ox_metrics ox1) = em_batches_failed_transient (ox_metrics ox)"
    "em_points_emitted (ox_metrics ox1) = em_points_emitted (ox_metrics ox)"
    "ox_client ox1 = ox_client ox"
    "em_points_dropped (ox_metrics ox1) = em_points_dropped (ox_metrics ox) + word_of_nat
      (3 * (sum_list (counts_of snap) -
        sum_list (emitted (ox_max_export_points_per_tick ox) (counts_of snap))))"
    "em_attrs_truncated (ox_metrics ox1) = em_attrs_truncated (ox_metrics ox) +
      word_of_nat (truncations (ox_max_export_points_per_tick ox) snap)"
    "em_ticks_dropped (ox_metrics ox1) = em_ticks_dropped (ox_metrics ox)"
    "em_batches_dropped (ox_metrics ox1) = em_batches_dropped (ox_metrics ox)"
    "em_queue_depth (ox_metrics ox1) = em_queue_depth (ox_metrics ox)"
    using assms
    by (auto simp: build_request_def Let_def collect_points_dropped collect_points_truncated)
  obtain ms where "rq = wrap_batch ms (ox_resource_attrs ox) (''infmon'', be_version env)"
      "metrics_points ms = built + 10"
    using assms
    by (auto simp: build_request_def Let_def wrap_batch_def metrics_points_append data_metrics_points
        self_metrics_points)
  then show "sum_list (map batch_points (slice_into_batches n rq)) = built + 10"
    by (simp only: batch_points_eq slices_points)
qed

text \<open>The batches of an export and their results.\<close>

definition export_slices :: "build_env \<Rightarrow> flow_stats_snapshot \<Rightarrow> otlp_exporter \<Rightarrow> request list" where
  "export_slices env snap ox =
     slice_into_batches (ox_max_batch_points ox) (fst (fst (build_request env snap ox)))"

definition export_results ::
    "build_env \<Rightarrow> (nat \<Rightarrow> nat \<Rightarrow> attempt_world) \<Rightarrow> flow_stats_snapshot \<Rightarrow> otlp_exporter \<Rightarrow>
     (exporter_error + unit) list" where
  "export_results env w snap ox =
     batch_results w 0 (length (export_slices env snap ox)) (ox_client ox)"

text \<open>Every counter of the exporter after an export that ran to its end.\<close>

definition accounted ::
    "build_env \<Rightarrow> (nat \<Rightarrow> nat \<Rightarrow> attempt_world) \<Rightarrow> u64 \<Rightarrow> flow_stats_snapshot \<Rightarrow> otlp_exporter \<Rightarrow>
     exporter_error + unit \<Rightarrow> otlp_exporter \<Rightarrow> bool" where
  "accounted env w elapsed snap ox res ox' \<longleftrightarrow>
     (let rs = export_results env w snap ox; bs = export_slices env snap ox;
          m = ox_metrics ox; m' = ox_metrics ox'; mp = ox_max_export_points_per_tick ox
      in em_batches_sent m' = em_batches_sent m + word_of_nat (oks rs) \<and>
         em_batches_failed_non_retryable m' =
           em_batches_failed_non_retryable m + word_of_nat (permanents rs) \<and>
         em_batches_failed_transient m' = em_batches_failed_transient m + word_of_nat (transients rs) \<and>
         em_points_emitted m' = em_points_emitted m +
           word_of_nat (if res = Ok () then sum_list (map batch_points bs) - 10 else sent_points bs rs) \<and>
         em_points_dropped m' = em_points_dropped m +
           word_of_nat (3 * (sum_list (counts_of snap) - sum_list (emitted mp (counts_of snap)))) \<and>
         em_attrs_truncated m' = em_attrs_truncated m + word_of_nat (truncations mp snap) \<and>
         em_export_duration_bits m' = elapsed \<and>
         em_ticks_dropped m' = em_ticks_dropped m \<and> em_batches_dropped m' = em_batches_dropped m \<and>
         em_queue_depth m' = em_queue_depth m \<and>
         (case res of
            Ok _ \<Rightarrow> permanents rs = 0 \<and> transients rs = 0 \<and> length rs = length bs
          | Err (Permanent e) \<Rightarrow> permanents rs = 1 \<and> rs \<noteq> [] \<and> last rs = Err (Permanent e)
          | Err _ \<Rightarrow> permanents rs = 0 \<and> 0 < transients rs \<and> length rs = length bs))"

lemma export_accounted:
  assumes "otlp_export env w elapsed snap ox = (res, ox')"
  shows "accounted env w elapsed snap ox res ox'"
proof -
  obtain rq built ox1 where b: "build_request env snap ox = ((rq, built), ox1)" by (metis prod.exhaust)
  note same = build_request_metrics [OF b]
  let ?bs = "slice_into_batches (ox_max_batch_points ox) rq"
  obtain r ox2 where s: "send_batches w 0 ?bs 0 False ox1 = (r, ox2)" by fastforce
  have acc: "sends_ok ?bs (batch_results w 0 (length ?bs) (ox_client ox)) 0 False ox1 r ox2"
    using send_batches_account [OF s] by (simp only: same(5))
  define rs where "rs = batch_results w 0 (length ?bs) (ox_client ox)"
  have slices: "export_slices env snap ox = ?bs" "export_results env w snap ox = rs"
    by (simp_all add: export_slices_def export_results_def rs_def b)
  have acc: "ox_metrics ox2 = account rs (ox_metrics ox1)"
      "case r of
        Ok (p', failed') \<Rightarrow> permanents rs = 0 \<and> length rs = length ?bs \<and>
          p' = sent_points ?bs rs \<and> (failed' \<longleftrightarrow> 0 < transients rs)
      | Err (e, p') \<Rightarrow> permanents rs = 1 \<and> rs \<noteq> [] \<and> last rs = Err (Permanent e) \<and>
          p' = sent_points ?bs rs"
    using acc unfolding sends_ok_def rs_def [symmetric] by (auto split: sum.splits)
  have total: "sum_list (map batch_points ?bs) - 10 = built" using same(6) by simp
  show ?thesis
  proof (cases r)
    case (Inl ep)
    obtain e p' where "ep = (e, p')" by (cases ep)
    with Inl have "res = Err (Permanent e)" and
        m: "ox_metrics ox' = set_export_duration elapsed
          ((if 0 < p' then count_points p' else id) (account rs (ox_metrics ox1)))"
      using assms b s acc(1) by (auto simp: otlp_export_def Let_def map_metrics_def)
    then show ?thesis
      using acc(2) Inl \<open>ep = (e, p')\<close> same(1-4,7-11)
      by (simp add: accounted_def slices Let_def account_def set_export_duration_def count_points_def
          del: One_nat_def)
  next
    case (Inr pf)
    obtain p' failed' where pf: "pf = (p', failed')" by (cases pf)
    show ?thesis
    proof (cases failed')
      case True
      then have "res = Err (Transient ''some batches failed after retries'')" and
          m: "ox_metrics ox' = (if 0 < p' then count_points p' else id)
            (set_export_duration elapsed (account rs (ox_metrics ox1)))"
        using assms b s acc(1) Inr pf by (auto simp: otlp_export_def Let_def map_metrics_def)
      then show ?thesis
        using acc(2) Inr pf True same(1-4,7-11)
        by (simp add: accounted_def slices Let_def account_def set_export_duration_def count_points_def)
    next
      case False
      then have "res = Ok ()" and
          m: "ox_metrics ox' = count_points built (set_export_duration elapsed (account rs (ox_metrics ox1)))"
        using assms b s acc(1) Inr pf by (auto simp: otlp_export_def Let_def map_metrics_def)
      then show ?thesis
        using acc(2) Inr pf False same(1-4,7-11) total
        by (simp add: accounted_def slices Let_def account_def set_export_duration_def count_points_def)
    qed
  qed
qed

section \<open>The accounting of an export that is cut off\<close>

lemma cancelled_batches_account:
  "cancelled_batches w i bs (j, a, at) ox = Some ox' \<Longrightarrow>
   i \<le> j \<and> (let rs = take (j - i) (batch_results w i (length bs) (ox_client ox))
     in permanents rs = 0 \<and> ox_metrics ox' = account rs (ox_metrics ox))"
proof (induction bs arbitrary: i ox)
  case (Cons b bs)
  show ?case
  proof (cases "i = j")
    case True
    then show ?thesis using Cons.prems by (auto simp: account_simps)
  next
    case False
    obtain res c waits where b: "export_batch_with_retry (w i) (ox_client ox) = (res, c, waits)"
      by (metis prod_cases3)
    let ?ox1 = "ox\<lparr>ox_client := c\<rparr>"
    have client: "ox_client (map_metrics f ?ox1) = c" "ox_metrics (map_metrics f ?ox1) = f (ox_metrics ox)"
      for f by (simp_all add: map_metrics_def)
    obtain f where f: "cancelled_batches w (i + 1) bs (j, a, at) (map_metrics f ?ox1) = Some ox'"
        and res: "\<nexists>m. res = Err (Permanent m)" "\<And>rs m. account rs (f m) = account (res # rs) m"
        "\<And>rs. permanents (res # rs) = permanents rs"
    proof (cases res)
      case (Inr u)
      then show ?thesis using Cons.prems b False by (intro that [of count_sent]) (auto simp: account_simps)
    next
      case (Inl e)
      then show ?thesis
        using Cons.prems b False
        by (cases e; intro that [of count_transient]) (auto simp: account_simps)
    qed
    note ih = Cons.IH [OF f, unfolded client]
    then have "j - i = Suc (j - (i + 1))" by (auto simp: Suc_diff_Suc)
    then show ?thesis using ih b res by (simp add: Let_def)
  qed
qed simp

lemma otlp_cancelled_account:
  assumes "otlp_cancelled env w (j, a, at) snap ox = Some ox'"
  shows "let rs = take j (export_results env w snap ox); m = ox_metrics ox; m' = ox_metrics ox'
    in permanents rs = 0 \<and> em_batches_sent m' = em_batches_sent m + word_of_nat (oks rs) \<and>
       em_batches_failed_non_retryable m' = em_batches_failed_non_retryable m \<and>
       em_batches_failed_transient m' = em_batches_failed_transient m + word_of_nat (transients rs) \<and>
       em_points_emitted m' = em_points_emitted m \<and>
       em_export_duration_bits m' = em_export_duration_bits m"
proof -
  obtain rq built ox1 where b: "build_request env snap ox = ((rq, built), ox1)" by (metis prod.exhaust)
  note same = build_request_metrics [OF b]
  have dur: "em_export_duration_bits (ox_metrics ox1) = em_export_duration_bits (ox_metrics ox)"
    using b by (auto simp: build_request_def Let_def)
  have "cancelled_batches w 0 (export_slices env snap ox) (j, a, at) ox1 = Some ox'"
    using assms b by (simp add: otlp_cancelled_def export_slices_def)
  from cancelled_batches_account [OF this] show ?thesis
    using same dur by (simp add: Let_def export_results_def account_def)
qed

section \<open>Properties\<close>

text \<open>
  C25. One batch is tried at most four times. The result is that of the last attempt made; every
  attempt before it failed in a way that is retried (no connection, a deadline, or one of the
  four retryable codes); it is the fourth, or it succeeded, or its error is permanent. The
  waits between attempts are bounded by 2, 4 and 8 seconds.
\<close>

theorem retry_exact:
  "case export_batch_with_retry w client of (res, client', waits) \<Rightarrow>
     (let rs = attempt_results w [0..<4] client
      in rs \<noteq> [] \<and> length rs \<le> 4 \<and> res = last rs \<and> list_all retries (butlast rs) \<and>
         (if length rs = 4 then True else \<not> retries (last rs)) \<and>
         waits = take (length rs - 1) [from_secs 2, from_secs 4, from_secs 8])"
proof -
  obtain res c waits where r: "export_batch_with_retry w client = (res, c, waits)" by (metis prod_cases3)
  let ?rs = "attempt_results w [0..<4] client"
  have four: "[0..<MAX_RETRIES + 1] = [0..<4]" by (simp add: MAX_RETRIES_def)
  have run: "try_attempts w [0..<4] None client = (res, c, waits)"
    using r unfolding export_batch_with_retry_def four .
  have len: "length ?rs \<le> 4" using attempt_results_length [of w "[0..<4]" client] by simp
  have ne: "?rs \<noteq> []" by (rule attempt_results_nonempty) simp
  have bounds: "backoff_max (Suc 0) = from_secs 2" "backoff_max (Suc (Suc 0)) = from_secs 4"
      "backoff_max (Suc (Suc (Suc 0))) = from_secs 8"
    by (simp_all add: backoff_max_def RETRY_CAP_def RETRY_BASE_def duration_simps min_def)
  have "map backoff_max [1..<k] = take (k - 1) [from_secs 2, from_secs 4, from_secs 8]"
    if "k \<le> 4" for k
  proof -
    from that consider "k = 0" | "k = 1" | "k = 2" | "k = 3" | "k = 4" by linarith
    then show ?thesis
      by cases (simp_all add: upt_rec bounds numeral_2_eq_2 numeral_3_eq_3)
  qed
  then have "wait_bounds (take (length ?rs) [0..<4]) =
      take (length ?rs - 1) [from_secs 2, from_secs 4, from_secs 8]"
    using wait_bounds_attempts [OF len] len by simp
  then show ?thesis
    using try_attempts_results [OF run] len ne unfolding r by (auto simp: Let_def)
qed

text \<open>
  C10. What an export that runs to its end does to every counter. Batches sent, failed for good
  and failed after retries each grow by the number of such results; a permanent error is the
  last result, and the batches after it are not tried, while any other failure lets the rest
  go on. The count of emitted points grows by all points of all batches less the exporter's
  own ten when everything was sent, but by all points of the sent batches, the exporter's own
  included, when something failed. The dropped points grow by three for each flow left out,
  the truncated attributes by the number of texts over 256 bytes among those of the emitted
  flows, the duration is the one measured, on every path, and the counters of dropped ticks,
  dropped batches and queue depth stay.
\<close>

theorem export_accounting:
  "case otlp_export env w elapsed snap ox of (res, ox') \<Rightarrow> accounted env w elapsed snap ox res ox'"
  using export_accounted by (auto split: prod.splits)

text \<open>The batch at which the deadline cuts an export off, if it does, and the results until then.\<close>

definition cut_at ::
    "build_env \<Rightarrow> (nat \<Rightarrow> nat \<Rightarrow> attempt_world) \<Rightarrow> (nat \<times> nat \<times> await) option \<Rightarrow> flow_stats_snapshot \<Rightarrow>
     otlp_exporter \<Rightarrow> nat option" where
  "cut_at env w deadline snap ox =
     Option.bind deadline (\<lambda>cutoff. map_option (\<lambda>_. fst cutoff) (otlp_cancelled env w cutoff snap ox))"

definition results_until ::
    "build_env \<Rightarrow> (nat \<Rightarrow> nat \<Rightarrow> attempt_world) \<Rightarrow> (nat \<times> nat \<times> await) option \<Rightarrow> flow_stats_snapshot \<Rightarrow>
     otlp_exporter \<Rightarrow> (exporter_error + unit) list" where
  "results_until env w deadline snap ox =
     (case cut_at env w deadline snap ox of
        None \<Rightarrow> export_results env w snap ox
      | Some j \<Rightarrow> take j (export_results env w snap ox))"

text \<open>
  C39. Under the exporter framework, whose deadline may cut an export off at any of its waits, a
  failed tick is counted twice: the plugin counts every failed batch it completed, and the
  thread counts one more on the same counters, for a permanent error (which moves that counter
  by two and ends the thread), for an export that failed otherwise, and for one cut off. An
  export cut off keeps the batches it sent in their counter, but counts none of their points
  and leaves the duration as it was.
\<close>

theorem failures_counted_twice:
  "case dispatch (otlp_plugin env w elapsed deadline) snap (ox, backoff) of
     ((ox', backoff'), slept, go_on) \<Rightarrow>
     (let rs = results_until env w deadline snap ox; m = ox_metrics ox; m' = ox_metrics ox';
          cut_off = (cut_at env w deadline snap ox \<noteq> None)
      in (permanents rs = 1 \<longleftrightarrow> go_on = Break) \<and>
         em_batches_sent m' = em_batches_sent m + word_of_nat (oks rs) \<and>
         em_batches_failed_non_retryable m' =
           em_batches_failed_non_retryable m + word_of_nat (2 * permanents rs) \<and>
         em_batches_failed_transient m' =
           em_batches_failed_transient m + word_of_nat (transients rs +
             (if cut_off then 1 else if permanents rs = 0 \<and> 0 < transients rs then 1 else 0)) \<and>
         (if cut_off then em_points_emitted m' = em_points_emitted m \<and>
            em_export_duration_bits m' = em_export_duration_bits m
          else em_export_duration_bits m' = elapsed))"
proof (cases "Option.bind deadline (\<lambda>cutoff. otlp_cancelled env w cutoff snap ox)")
  case None
  then have cut: "cut_at env w deadline snap ox = None"
    by (auto simp: cut_at_def bind_eq_None_conv)
  obtain res ox1 where e: "otlp_export env w elapsed snap ox = (res, ox1)" by fastforce
  note acc = export_accounted [OF e]
  show ?thesis
  proof (cases res)
    case (Inr u)
    then show ?thesis
      using acc e None cut
      by (simp add: dispatch_def otlp_plugin_def accounted_def results_until_def Let_def)
  next
    case (Inl err)
    then show ?thesis
      using acc e None cut
      by (cases err)
        (simp_all add: dispatch_def otlp_plugin_def accounted_def results_until_def Let_def map_metrics_def
          count_transient_def count_non_retryable_def)
  qed
next
  case (Some ox1)
  then obtain j a at where d: "deadline = Some (j, a, at)"
      and c: "otlp_cancelled env w (j, a, at) snap ox = Some ox1"
    by (cases deadline) auto
  then have cut: "cut_at env w deadline snap ox = Some j" by (simp add: cut_at_def)
  show ?thesis
    using otlp_cancelled_account [OF c] Some cut
    by (simp add: dispatch_def otlp_plugin_def results_until_def Let_def map_metrics_def
        count_transient_def)
qed

end
