(* ===== verification/Lifecycle.thy ===== *)
theory Lifecycle
  imports Validate PollLoop Server OtlpSend
begin

text \<open>
  The frontend's life, \<open>src/frontend/src/lifecycle.rs\<close>: starting it from a configuration file,
  reloading, and stopping it in an order in which no join waits for ever. The file system, the
  YAML parser, the stats socket, the operating system's threads and the VAPI connection are
  inputs, gathered in \<open>start_world\<close>; the control server is spawned and stopped by the
  operations of \<open>Server\<close>. Threads are known by the channel ends they hold, which is
  what decides whether they can end.
\<close>

section \<open>Errors\<close>

datatype lifecycle_error =
    StartConfigError string
  | BackendUnreachable string
  | UnknownExporter string
  | ExporterInit string
  | ReloadFailed string

fun lifecycle_error_msg :: "lifecycle_error \<Rightarrow> string" where
  "lifecycle_error_msg (StartConfigError e) = ''config error: '' @ e"
| "lifecycle_error_msg (BackendUnreachable e) = ''backend unreachable: '' @ e"
| "lifecycle_error_msg (UnknownExporter e) = ''unknown exporter type: '' @ e"
| "lifecycle_error_msg (ExporterInit e) = ''exporter init failed: '' @ e"
| "lifecycle_error_msg (ReloadFailed e) = ''reload failed: '' @ e"

section \<open>Durations in configuration values\<close>

text \<open>The suffixes in the order they are tried; hours and minutes multiply in \<open>u64\<close> and wrap.\<close>

definition parse_duration :: "string \<Rightarrow> duration option" where
  "parse_duration s0 =
     (let s = trim s0; number = (\<lambda>t. res_ok (parse_u64 (trim t)))
      in case strip_suffix ''ms'' s of
           Some ms \<Rightarrow> map_option from_millis (number ms)
         | None \<Rightarrow>
        (case strip_suffix ''h'' s of
           Some h \<Rightarrow> map_option (\<lambda>v. from_secs (v * 3600 mod 2 ^ 64)) (number h)
         | None \<Rightarrow>
        (case strip_suffix ''m'' s of
           Some m \<Rightarrow> map_option (\<lambda>v. from_secs (v * 60 mod 2 ^ 64)) (number m)
         | None \<Rightarrow>
        (case strip_suffix ''s'' s of
           Some secs \<Rightarrow> map_option from_secs (number secs)
         | None \<Rightarrow>
             if list_all is_ascii_digit s then map_option from_millis (res_ok (parse_u64 s))
             else None))))"

definition millis_wrapped :: "duration \<Rightarrow> u64" where
  "millis_wrapped d = word_of_nat (as_nanos d div 1000000)"

lemma wrapped_simps [simp]:
  "millis_wrapped (from_millis n) = word_of_nat n"
  "millis_wrapped (from_secs n) = word_of_nat n * 1000"
proof -
  have "n * 1000000000 div 1000000 = n * 1000" by simp
  then show "millis_wrapped (from_secs n) = word_of_nat n * 1000"
    unfolding millis_wrapped_def from_secs_def by (simp only: duration.sel) simp
qed (simp add: millis_wrapped_def from_millis_def)

lemma word_of_nat_mod: "(word_of_nat (n mod 18446744073709551616) :: u64) = word_of_nat n"
  by (simp add: word_unat_eq_iff unat_of_nat take_bit_eq_mod)

lemma parse_u64_empty: "parse_u64 [] = Err EmptyInt"
  by (simp add: parse_u64_def from_str_radix_def)

text \<open>One suffix in both parsers.\<close>

lemma suffix_millis:
  "map_option millis_wrapped (map_option from_millis x) = map_option word_of_nat x"
  "map_option millis_wrapped (map_option from_secs x) =
     map_option (\<lambda>v. v * 1000) (map_option word_of_nat x)"
  "map_option millis_wrapped (map_option (\<lambda>v. from_secs (v * 60 mod 18446744073709551616)) x) =
     map_option (\<lambda>v. v * 60000) (map_option word_of_nat x)"
  "map_option millis_wrapped (map_option (\<lambda>v. from_secs (v * 3600 mod 18446744073709551616)) x) =
     map_option (\<lambda>v. v * 3600000) (map_option word_of_nat x)"
  by (cases x; simp add: word_of_nat_mod)+

lemma parse_durations_agree:
  "parse_duration_str s = map_option millis_wrapped (parse_duration s)"
proof (cases "trim s = []")
  case True
  then show ?thesis
    by (simp add: parse_duration_str_def parse_duration_def strip_suffix_def parse_u64_empty)
next
  case False
  then show ?thesis
    by (simp add: parse_duration_str_def parse_duration_def Let_def u64_of_text_def suffix_millis
        split: option.split)
qed

section \<open>Exporter entries\<close>

definition extra_text :: "yaml_value \<Rightarrow> string" where
  "extra_text v =
     (case v of
        YString s \<Rightarrow> s
      | YOther _ rendered \<Rightarrow> trim (case rendered of None \<Rightarrow> [] | Some t \<Rightarrow> t))"

definition entry_to_exporter_config :: "exporter_entry \<Rightarrow> exporter_config" where
  "entry_to_exporter_config entry =
     \<lparr> xc_kind = ee_kind entry,
       xc_name = ee_name entry,
       xc_queue_depth = ee_queue_depth entry,
       xc_export_timeout =
         (case parse_duration (ee_export_timeout entry) of None \<Rightarrow> from_millis 800 | Some d \<Rightarrow> d),
       xc_extra = map (\<lambda>(k, v). (k, extra_text v)) (ee_extra entry) \<rparr>"

section \<open>Waiting for the backend\<close>

text \<open>
  One probe: the file descriptor \<open>socket\<close> returns and the return code of \<open>connect\<close>, for the
  path and the address length it is given. A path of 108 bytes or more does not fit the
  address.
\<close>

record socket_world =
  sw_socket :: int
  sw_connect :: "string \<Rightarrow> nat \<Rightarrow> int"

definition SUN_PATH_SIZE :: nat where
  "SUN_PATH_SIZE = 108"

definition vpp_stats_socket_reachable :: "socket_world \<Rightarrow> string \<Rightarrow> bool" where
  "vpp_stats_socket_reachable w path =
     (if sw_socket w < 0 then False
      else if SUN_PATH_SIZE \<le> length path then False
      else sw_connect w path (2 + length path + 1) = 0)"

definition PROBE_INTERVAL :: duration where
  "PROBE_INTERVAL = from_millis 200"

text \<open>
  Probe \<open>i\<close> at a given elapsed time; a sleep takes its duration and \<open>extra i\<close> nanoseconds
  more. The result is whether a probe succeeded.
\<close>

function wait_backend ::
    "(nat \<Rightarrow> bool) \<Rightarrow> (nat \<Rightarrow> nat) \<Rightarrow> duration \<Rightarrow> nat \<Rightarrow> duration \<Rightarrow> bool" where
  "wait_backend probe extra timeout i elapsed =
     (if elapsed < timeout then
        if probe i then True
        else wait_backend probe extra timeout (Suc i)
               (Nanos (as_nanos elapsed + as_nanos PROBE_INTERVAL + extra i))
      else False)"
  by pat_completeness auto
termination
  by (relation "measure (\<lambda>(probe, extra, timeout, i, elapsed). as_nanos timeout - as_nanos elapsed)")
    (auto simp: duration_simps PROBE_INTERVAL_def)

declare wait_backend.simps [simp del]

text \<open>The time at which probe \<open>n\<close> is made.\<close>

fun probe_time :: "(nat \<Rightarrow> nat) \<Rightarrow> nat \<Rightarrow> duration" where
  "probe_time extra 0 = Nanos 0"
| "probe_time extra (Suc n) = Nanos (as_nanos (probe_time extra n) + as_nanos PROBE_INTERVAL + extra n)"

lemma probe_time_mono: "m \<le> n \<Longrightarrow> as_nanos (probe_time extra m) \<le> as_nanos (probe_time extra n)"
  by (induction rule: dec_induct) auto

lemma wait_backend_from:
  "wait_backend probe extra timeout i (probe_time extra i) \<longleftrightarrow>
   (\<exists>j \<ge> i. probe j \<and> probe_time extra j < timeout)"
proof (induction probe extra timeout i "probe_time extra i" rule: wait_backend.induct)
  case (1 probe extra timeout i)
  show ?case
  proof (cases "probe_time extra i < timeout \<and> \<not> probe i")
    case True
    then have "wait_backend probe extra timeout i (probe_time extra i) =
        wait_backend probe extra timeout (Suc i) (probe_time extra (Suc i))"
      by (simp add: wait_backend.simps [of _ _ _ i])
    moreover have "(\<exists>j \<ge> i. probe j \<and> probe_time extra j < timeout) \<longleftrightarrow>
        (\<exists>j \<ge> Suc i. probe j \<and> probe_time extra j < timeout)"
      using True by (metis Suc_leD le_antisym not_less_eq_eq)
    ultimately show ?thesis using 1 True by simp
  next
    case False
    moreover have "\<not> probe_time extra j < timeout" if "i \<le> j" "\<not> probe_time extra i < timeout" for j
      using probe_time_mono [OF that(1), of extra] that(2) by (simp add: less_duration_def)
    ultimately show ?thesis by (auto simp: wait_backend.simps [of _ _ _ i])
  qed
qed

lemma wait_backend_iff:
  "wait_backend probe extra timeout 0 (Nanos 0) \<longleftrightarrow>
   (\<exists>j. probe j \<and> probe_time extra j < timeout)"
  using wait_backend_from [of probe extra timeout 0] by simp

section \<open>Starting\<close>

text \<open>\<open>{:?}\<close> of a duration: the largest unit with a non-zero whole part, and the fraction without
  trailing zeros.\<close>

fun fixed10 :: "nat \<Rightarrow> nat \<Rightarrow> string" where
  "fixed10 0 v = []"
| "fixed10 (Suc k) v = fixed10 k (v div 10) @ [digit_char (v mod 10)]"

definition show_decimal :: "nat \<Rightarrow> nat \<Rightarrow> nat \<Rightarrow> string" where
  "show_decimal whole places frac =
     (let ds = rev (dropWhile (\<lambda>c. c = CHR ''0'') (rev (fixed10 places frac)))
      in show_nat whole @ (if ds = [] then [] else ''.'' @ ds))"

definition debug_duration :: "duration \<Rightarrow> string" where
  "debug_duration d =
     (let n = as_nanos d
      in if 10 ^ 9 \<le> n then show_decimal (n div 10 ^ 9) 9 (n mod 10 ^ 9) @ ''s''
         else if 10 ^ 6 \<le> n then show_decimal (n div 10 ^ 6) 6 (n mod 10 ^ 6) @ ''ms''
         else if 10 ^ 3 \<le> n then show_decimal (n div 10 ^ 3) 3 (n mod 10 ^ 3) @ [CHR 0xC2, CHR 0xB5] @ ''s''
         else show_nat n @ ''ns'')"

type_synonym 's factory = "exporter_config \<Rightarrow> string + 's"

text \<open>
  What the outside answers while the frontend starts. \<open>lw_vapi\<close> is \<open>None\<close> in a build without
  the VAPI feature; \<open>lw_spawn_world\<close> and \<open>lw_os\<close> are what the control server's \<open>spawn\<close> finds.
\<close>

record ('s, 'b) start_world =
  lw_read :: "string \<Rightarrow> string + string"
  lw_yaml :: "string \<Rightarrow> string + config"
  lw_debug :: "string \<Rightarrow> string"
  lw_probe :: "nat \<Rightarrow> socket_world"
  lw_extra :: "nat \<Rightarrow> nat"
  lw_registry :: "'s factory registration list"
  lw_spawn :: "string \<Rightarrow> string + unit"
  lw_vapi :: "(string + 'b) option"
  lw_spawn_world :: spawn_world
  lw_os :: os_state
  lw_snapshot_thread :: "string + unit"

text \<open>A running exporter: the plugin, its deadline, and the channel between it and its senders.\<close>

record 's running_exporter =
  re_instance :: 's
  re_timeout :: duration
  re_queue :: "flow_stats_snapshot chan"

text \<open>The poller thread holds one sender of each exporter channel, and one of the stats channel.\<close>

record poller_thread =
  pt_config :: poller_config
  pt_stats_sender :: bool

record ('s, 'b) frontend =
  fe_poller :: "poller_thread option"
  fe_exporters :: "'s running_exporter list"
  fe_senders :: bool
  fe_control :: "control_handle option"
  fe_snapshot_thread :: bool
  fe_stats_channel :: "flow_stats_snapshot chan option"
  fe_control_state :: "'b control_state"
  fe_config_path :: string
  fe_shutdown :: bool

fun build_exporters ::
    "('s, 'b) start_world \<Rightarrow> exporter_entry list \<Rightarrow> lifecycle_error + 's running_exporter list" where
  "build_exporters w [] = Ok []"
| "build_exporters w (entry # entries) =
     (case find_factory (lw_registry w) (ee_kind entry) of
        None \<Rightarrow> Err (UnknownExporter (ee_kind entry))
      | Some factory \<Rightarrow>
          (let ecfg = entry_to_exporter_config entry
           in and_then (map_err (\<lambda>e. ExporterInit (ee_name entry @ '': '' @ e)) (factory ecfg))
             (\<lambda>exporter_instance.
               and_then (map_err (\<lambda>e. ExporterInit (''spawn '' @ ee_name entry @ '': '' @ e))
                           (lw_spawn w (ee_name entry)))
             (\<lambda>_. and_then (build_exporters w entries)
             (\<lambda>rest. Ok (\<lparr> re_instance = exporter_instance, re_timeout = xc_export_timeout ecfg,
                           re_queue = snapshot_channel (xc_queue_depth ecfg) \<rparr> # rest))))))"

definition load_validated ::
    "('s, 'b) start_world \<Rightarrow> (string \<Rightarrow> string) \<Rightarrow> string \<Rightarrow> string + config" where
  "load_validated w cannot_read path =
     and_then (map_err cannot_read (lw_read w path))
    (\<lambda>text. and_then (map_err (\<lambda>e. ''YAML parse error: '' @ e) (lw_yaml w text))
    (\<lambda>config. and_then (map_err (\<lambda>e. ''validation error: '' @ validation_error_msg (lw_debug w) e)
                           (validate_config config))
    (\<lambda>_. Ok config)))"

definition unreachable_msg :: "string \<Rightarrow> duration \<Rightarrow> string" where
  "unreachable_msg path timeout =
     ''stats socket at '' @ path @ '' not reachable within '' @ debug_duration timeout"

definition make_control_state :: "('s, 'b) start_world \<Rightarrow> config \<Rightarrow> 'b control_state" where
  "make_control_state w config =
     (let state =
        (case lw_vapi w of
           Some (Ok client) \<Rightarrow> control_with_vapi (cfg_flow_rules config) client
         | Some (Err _) \<Rightarrow> control_new (cfg_flow_rules config)
         | None \<Rightarrow> control_new (cfg_flow_rules config))
      in state\<lparr>cs_pull_tx := Some (sync_channel 4)\<rparr>)"

definition startup_timeout_of :: "frontend_config \<Rightarrow> duration" where
  "startup_timeout_of cfg =
     (case parse_duration (fc_startup_timeout cfg) of None \<Rightarrow> from_secs 5 | Some d \<Rightarrow> d)"

definition frontend_of :: "config \<Rightarrow> frontend_config" where
  "frontend_of config =
     (case cfg_frontend config of None \<Rightarrow> default_frontend_config | Some f \<Rightarrow> f)"

definition exporters_of :: "config \<Rightarrow> exporter_entry list" where
  "exporters_of config = (case cfg_exporters config of None \<Rightarrow> [] | Some es \<Rightarrow> es)"

definition backend_reached :: "('s, 'b) start_world \<Rightarrow> frontend_config \<Rightarrow> bool" where
  "backend_reached w cfg =
     wait_backend (\<lambda>i. vpp_stats_socket_reachable (lw_probe w i) (fc_vpp_stats_socket cfg))
       (lw_extra w) (startup_timeout_of cfg) 0 (Nanos 0)"

text \<open>
  The threads and channels once the exporters run; the poller gets a clone of each sender. A
  control server that cannot be spawned is only warned about. \<open>os_started\<close> is what the spawning
  leaves of the sockets.
\<close>

definition os_started :: "('s, 'b) start_world \<Rightarrow> config \<Rightarrow> os_state" where
  "os_started w config =
     snd (spawn (lw_spawn_world w) (fc_control_socket (frontend_of config)) (lw_os w))"

definition assemble ::
    "('s, 'b) start_world \<Rightarrow> string \<Rightarrow> config \<Rightarrow> 's running_exporter list \<Rightarrow> ('s, 'b) frontend" where
  "assemble w config_path config exporters =
     (let frontend_cfg = frontend_of config;
          control_handle =
            res_ok (fst (spawn (lw_spawn_world w) (fc_control_socket frontend_cfg) (lw_os w)));
          snapshot_up = (control_handle \<noteq> None \<and> (case lw_snapshot_thread w of Ok _ \<Rightarrow> True | Err _ \<Rightarrow> False))
      in \<lparr> fe_poller = Some \<lparr> pt_config =
               \<lparr> pc_stats_socket = fc_vpp_stats_socket frontend_cfg,
                 pc_interval = from_millis (unat (fc_polling_interval_ms frontend_cfg)) \<rparr>,
               pt_stats_sender = snapshot_up \<rparr>,
           fe_exporters = map (\<lambda>x. x\<lparr>re_queue := clone_sender (re_queue x)\<rparr>) exporters,
           fe_senders = True,
           fe_control = control_handle,
           fe_snapshot_thread = snapshot_up,
           fe_stats_channel = (if snapshot_up then Some (sync_channel 1) else None),
           fe_control_state = make_control_state w config,
           fe_config_path = config_path,
           fe_shutdown = False \<rparr>)"

definition start :: "('s, 'b) start_world \<Rightarrow> string \<Rightarrow> lifecycle_error + ('s, 'b) frontend" where
  "start w config_path =
     and_then (map_err StartConfigError
                 (load_validated w (\<lambda>e. ''cannot read '' @ config_path @ '': '' @ e) config_path))
       (\<lambda>config.
         let frontend_cfg = frontend_of config
         in if \<not> backend_reached w frontend_cfg
            then Err (BackendUnreachable
                   (unreachable_msg (fc_vpp_stats_socket frontend_cfg) (startup_timeout_of frontend_cfg)))
            else and_then (build_exporters w (exporters_of config))
                   (\<lambda>exporters. Ok (assemble w config_path config exporters)))"

definition reload ::
    "('s, 'b) start_world \<Rightarrow> ('s, 'b) frontend \<Rightarrow> (lifecycle_error + unit) \<times> ('s, 'b) frontend" where
  "reload w fe =
     (map_err ReloadFailed
        (and_then (load_validated w (\<lambda>e. ''cannot read config: '' @ e) (fe_config_path fe)) (\<lambda>_. Ok ())),
      fe)"

section \<open>Stopping\<close>

text \<open>
  Joining a thread returns when the thread can end: the poller ends once it sees its flag, an
  exporter thread once its channel has no sender left (or it broke off on a permanent error,
  \<open>ended i\<close>), the snapshot thread once the poller's sender is gone, the control server once
  \<open>ControlHandle::stop\<close> wakes it, which depends on what is then at the socket's path: the
  state of the sockets is an argument and a result. \<open>None\<close> is a join that never returns.
\<close>

definition drop_sender_of :: "'s running_exporter \<Rightarrow> 's running_exporter" where
  "drop_sender_of x = x\<lparr>re_queue := drop_sender (re_queue x)\<rparr>"

text \<open>The poller thread ends and drops its senders.\<close>

definition poller_stop :: "('s, 'b) frontend \<Rightarrow> ('s, 'b) frontend" where
  "poller_stop fe =
     (case fe_poller fe of
        None \<Rightarrow> fe
      | Some p \<Rightarrow>
          fe\<lparr> fe_poller := None,
              fe_exporters := map drop_sender_of (fe_exporters fe),
              fe_stats_channel := (if pt_stats_sender p then map_option drop_sender (fe_stats_channel fe)
                                   else fe_stats_channel fe) \<rparr>)"

definition snapshot_join :: "('s, 'b) frontend \<Rightarrow> ('s, 'b) frontend option" where
  "snapshot_join fe =
     (if \<not> fe_snapshot_thread fe then Some fe
      else case fe_stats_channel fe of
        None \<Rightarrow> None
      | Some ch \<Rightarrow> if ch_senders ch = 0 then Some (fe\<lparr>fe_snapshot_thread := False\<rparr>) else None)"

definition clear_senders :: "('s, 'b) frontend \<Rightarrow> ('s, 'b) frontend" where
  "clear_senders fe =
     (if fe_senders fe then fe\<lparr> fe_senders := False, fe_exporters := map drop_sender_of (fe_exporters fe) \<rparr>
      else fe)"

definition can_end :: "(nat \<Rightarrow> bool) \<Rightarrow> nat \<times> 's running_exporter \<Rightarrow> bool" where
  "can_end ended ix = (case ix of (i, x) \<Rightarrow> ended i \<or> ch_senders (re_queue x) = 0)"

definition join_exporters :: "(nat \<Rightarrow> bool) \<Rightarrow> ('s, 'b) frontend \<Rightarrow> ('s, 'b) frontend option" where
  "join_exporters ended fe =
     (if list_all (can_end ended) (enumerate 0 (fe_exporters fe))
      then Some (fe\<lparr>fe_exporters := []\<rparr>) else None)"

definition control_stop ::
    "os_state \<Rightarrow> ('s, 'b) frontend \<Rightarrow> (('s, 'b) frontend \<times> os_state) option" where
  "control_stop os fe =
     (case fe_control fe of
        None \<Rightarrow> Some (fe, os)
      | Some h \<Rightarrow> map_option (\<lambda>(h', os'). (fe\<lparr>fe_control := None\<rparr>, os')) (handle_stop h os))"

definition stop ::
    "(nat \<Rightarrow> bool) \<Rightarrow> os_state \<Rightarrow> ('s, 'b) frontend \<Rightarrow> (('s, 'b) frontend \<times> os_state) option" where
  "stop ended os fe =
     Option.bind (snapshot_join (poller_stop (fe\<lparr>fe_shutdown := True\<rparr>)))
       (\<lambda>fe1. Option.bind (join_exporters ended (clear_senders fe1)) (control_stop os))"

text \<open>
  What happens when the value goes out of scope without \<open>stop\<close>: the fields are dropped in the
  order they are declared, the exporter handles before the exporter senders.
\<close>

definition control_drop ::
    "os_state \<Rightarrow> ('s, 'b) frontend \<Rightarrow> (('s, 'b) frontend \<times> os_state) option" where
  "control_drop os fe =
     (case fe_control fe of
        None \<Rightarrow> Some (fe, os)
      | Some h \<Rightarrow> map_option (\<lambda>(h', os'). (fe\<lparr>fe_control := None\<rparr>, os')) (Server.shutdown h os))"

definition drop_frontend ::
    "(nat \<Rightarrow> bool) \<Rightarrow> os_state \<Rightarrow> ('s, 'b) frontend \<Rightarrow> (('s, 'b) frontend \<times> os_state) option" where
  "drop_frontend ended os fe =
     Option.bind (join_exporters ended (poller_stop fe)) (\<lambda>fe1. control_drop os (clear_senders fe1))"

text \<open>Everything is wound up: no thread and no sender left.\<close>

definition wound_up :: "('s, 'b) frontend \<Rightarrow> bool" where
  "wound_up fe \<longleftrightarrow> fe_poller fe = None \<and> fe_exporters fe = [] \<and> \<not> fe_senders fe \<and> fe_control fe = None \<and>
     \<not> fe_snapshot_thread fe \<and> fe_shutdown fe"

section \<open>The daemon\<close>

text \<open>
  \<open>src/frontend/src/main.rs\<close>: the path argument, and the loop that looks at the two signal flags
  every 100 ms. A look is the pair of flags it finds (shutdown, reload).
\<close>

definition config_path_arg :: "string list \<Rightarrow> string option" where
  "config_path_arg args =
     (case args of
        _ # arg # _ \<Rightarrow> if arg = ''--help'' \<or> arg = ''-h'' then None else Some arg
      | _ \<Rightarrow> Some ''/etc/infmon/config.yaml'')"

fun supervise ::
    "('s, 'b) start_world \<Rightarrow> (bool \<times> bool) list \<Rightarrow> ('s, 'b) frontend \<Rightarrow>
     (lifecycle_error + unit) list \<times> ('s, 'b) frontend" where
  "supervise w [] fe = ([], fe)"
| "supervise w ((stop_asked, reload_asked) # looks) fe =
     (if stop_asked then ([], fe)
      else if reload_asked then
        (case reload w fe of
           (r, fe1) \<Rightarrow> (case supervise w looks fe1 of (rs, fe2) \<Rightarrow> (r # rs, fe2)))
      else supervise w looks fe)"

text \<open>The exit code, or \<open>None\<close> when stopping hangs; \<open>os\<close> are the sockets when it stops.\<close>

definition frontend_main ::
    "('s, 'b) start_world \<Rightarrow> string list \<Rightarrow> (bool \<times> bool) list \<Rightarrow> (nat \<Rightarrow> bool) \<Rightarrow> os_state \<Rightarrow> int option" where
  "frontend_main w args looks ended os =
     (case config_path_arg args of
        None \<Rightarrow> Some 0
      | Some path \<Rightarrow>
          (case start w path of
             Err _ \<Rightarrow> Some 1
           | Ok fe \<Rightarrow> map_option (\<lambda>_. 0) (stop ended os (snd (supervise w looks fe)))))"

section \<open>Lemmas\<close>

text \<open>The wiring a started frontend has, which decides whether its threads can end.\<close>

definition wired :: "('s, 'b) frontend \<Rightarrow> bool" where
  "wired fe \<longleftrightarrow>
     (\<exists>p. fe_poller fe = Some p \<and> pt_stats_sender p = fe_snapshot_thread fe) \<and>
     fe_senders fe \<and> list_all (\<lambda>x. ch_senders (re_queue x) = 2) (fe_exporters fe) \<and>
     (fe_stats_channel fe = (if fe_snapshot_thread fe then Some (sync_channel 1) else None))"

lemma build_exporters_senders:
  "build_exporters w es = Ok xs \<Longrightarrow> list_all (\<lambda>x. ch_senders (re_queue x) = 1) xs"
  by (induction es arbitrary: xs)
    (auto simp: res_simps Let_def snapshot_channel_def sync_channel_def split: option.splits)

lemma start_Ok:
  "start w path = Ok fe \<longleftrightarrow>
   (\<exists>text c xs. lw_read w path = Ok text \<and> lw_yaml w text = Ok c \<and> config_ok c \<and>
      backend_reached w (frontend_of c) \<and> build_exporters w (exporters_of c) = Ok xs \<and>
      fe = assemble w path c xs)"
  by (auto simp: start_def load_validated_def Let_def res_simps validate_config_iff_config_ok)

lemma start_wired: "start w path = Ok fe \<Longrightarrow> wired fe"
  by (auto simp: start_Ok wired_def assemble_def Let_def list_all_length clone_sender_def
      dest!: build_exporters_senders)

lemma wired_joinable:
  assumes "wired fe"
  shows "list_all (can_end ended) (enumerate 0 (map (drop_sender_of \<circ> drop_sender_of) (fe_exporters fe)))"
  using assms
  by (auto simp: wired_def list_all_length can_end_def nth_enumerate_eq drop_sender_of_def drop_sender_def)

text \<open>Whether the path of the control server, if there is one, still leads to it.\<close>

definition control_reached :: "os_state \<Rightarrow> ('s, 'b) frontend \<Rightarrow> bool" where
  "control_reached os fe \<longleftrightarrow>
     (case fe_control fe of None \<Rightarrow> True | Some h \<Rightarrow> connect_to (hd_socket_path h) os = Some (hd_listener h))"

definition os_stopped :: "os_state \<Rightarrow> ('s, 'b) frontend \<Rightarrow> os_state" where
  "os_stopped os fe = (case fe_control fe of None \<Rightarrow> os | Some h \<Rightarrow> server_exit h os)"

lemma start_handle:
  assumes "start w path = Ok fe" "fe_control fe = Some h"
  shows "hd_join h"
proof -
  obtain c where "res_ok (fst (spawn (lw_spawn_world w) (fc_control_socket (frontend_of c)) (lw_os w))) = Some h"
    using assms by (auto simp: start_Ok assemble_def Let_def)
  then have "\<exists>os'. spawn (lw_spawn_world w) (fc_control_socket (frontend_of c)) (lw_os w) = (Ok h, os')"
    by (auto simp: res_ok_def prod_eq_iff split: sum.splits)
  then show ?thesis using spawn_Ok(1) by fastforce
qed

lemma control_stop_iff:
  assumes "\<And>h. fe_control fe = Some h \<Longrightarrow> hd_join h"
  shows "control_stop os fe =
      (if control_reached os fe then Some (fe\<lparr>fe_control := None\<rparr>, os_stopped os fe) else None)"
    and "control_drop os fe =
      (if control_reached os fe then Some (fe\<lparr>fe_control := None\<rparr>, os_stopped os fe) else None)"
proof -
  have none: "fe\<lparr>fe_control := None\<rparr> = fe" if "fe_control fe = None" using that by simp
  show "control_stop os fe =
      (if control_reached os fe then Some (fe\<lparr>fe_control := None\<rparr>, os_stopped os fe) else None)"
    "control_drop os fe =
      (if control_reached os fe then Some (fe\<lparr>fe_control := None\<rparr>, os_stopped os fe) else None)"
    using assms none
    by (auto simp: control_stop_def control_drop_def handle_stop_def shutdown_def control_reached_def
        os_stopped_def split: option.splits)
qed

text \<open>The frontend as its stopping leaves it, up to the control server.\<close>

definition emptied :: "('s, 'b) frontend \<Rightarrow> ('s, 'b) frontend \<Rightarrow> bool" where
  "emptied fe fe' \<longleftrightarrow> fe_poller fe' = None \<and> fe_exporters fe' = [] \<and> \<not> fe_senders fe' \<and>
     \<not> fe_snapshot_thread fe' \<and> fe_shutdown fe' \<and> fe_control fe' = fe_control fe"

lemma emptied_reached:
  "emptied fe fe' \<Longrightarrow> control_reached os fe' = control_reached os fe"
  "emptied fe fe' \<Longrightarrow> os_stopped os fe' = os_stopped os fe"
  by (simp_all add: emptied_def control_reached_def os_stopped_def)

lemma stop_wired:
  assumes "wired fe" "\<And>h. fe_control fe = Some h \<Longrightarrow> hd_join h"
  shows "if control_reached os fe
    then \<exists>fe'. stop ended os fe = Some (fe', os_stopped os fe) \<and> wound_up fe'
    else stop ended os fe = None"
proof -
  obtain fe1 where fe1: "snapshot_join (poller_stop (fe\<lparr>fe_shutdown := True\<rparr>)) = Some fe1"
      "join_exporters ended (clear_senders fe1) = Some ((clear_senders fe1)\<lparr>fe_exporters := []\<rparr>)"
      "emptied fe ((clear_senders fe1)\<lparr>fe_exporters := []\<rparr>)"
    using assms(1) wired_joinable [OF assms(1), of ended]
    by (fastforce simp: wired_def emptied_def poller_stop_def snapshot_join_def clear_senders_def
        join_exporters_def sync_channel_def drop_sender_def)
  let ?fe2 = "(clear_senders fe1)\<lparr>fe_exporters := []\<rparr>"
  have "stop ended os fe = control_stop os ?fe2" using fe1(1,2) by (simp add: stop_def)
  also have "\<dots> = (if control_reached os fe then Some (?fe2\<lparr>fe_control := None\<rparr>, os_stopped os fe) else None)"
    using control_stop_iff(1) [of ?fe2 os] assms(2) fe1(3) emptied_reached [OF fe1(3)]
    by (simp add: emptied_def del: frontend.update_convs)
  finally show ?thesis using fe1(3) by (simp add: emptied_def wound_up_def)
qed

lemma stop_started:
  assumes "start w path = Ok fe"
  shows "if control_reached os fe
    then \<exists>fe'. stop ended os fe = Some (fe', os_stopped os fe) \<and> wound_up fe'
    else stop ended os fe = None"
  using stop_wired [OF start_wired [OF assms], of os ended] start_handle [OF assms] by blast

lemma reload_keeps: "snd (reload w fe) = fe"
  by (simp add: reload_def)

lemma supervise_keeps: "snd (supervise w looks fe) = fe"
  by (induction w looks fe rule: supervise.induct)
    (auto split: prod.splits dest: arg_cong [where f = snd] simp: reload_def)

lemma frontend_main_exits:
  "frontend_main w args looks ended os =
     (case config_path_arg args of
        None \<Rightarrow> Some 0
      | Some path \<Rightarrow>
          (case start w path of
             Err _ \<Rightarrow> Some 1
           | Ok fe \<Rightarrow> if control_reached os fe then Some 0 else None))"
proof (cases "config_path_arg args")
  case (Some path)
  show ?thesis
  proof (cases "start w path")
    case (Inr fe)
    show ?thesis
      using stop_started [OF Inr, of os ended] Some Inr
      by (auto simp: frontend_main_def supervise_keeps split: if_splits)
  qed (simp add: frontend_main_def Some)
qed (simp add: frontend_main_def)

lemma drop_wired:
  assumes "wired fe" "\<And>h. fe_control fe = Some h \<Longrightarrow> hd_join h"
  shows "drop_frontend ended os fe = None \<longleftrightarrow>
    (\<exists>i < length (fe_exporters fe). \<not> ended i) \<or> \<not> control_reached os fe"
proof -
  have ends: "list_all (can_end ended) (enumerate 0 (map drop_sender_of (fe_exporters fe))) \<longleftrightarrow>
      (\<forall>i < length (fe_exporters fe). ended i)"
    using assms(1)
    by (simp add: wired_def list_all_length can_end_def nth_enumerate_eq drop_sender_of_def drop_sender_def)
  have control: "control_drop os fe1 = None \<longleftrightarrow> \<not> control_reached os fe" if "fe_control fe1 = fe_control fe" for fe1
    using control_stop_iff(2) [of fe1 os] assms(2) that by (simp add: control_reached_def)
  obtain p where "fe_poller fe = Some p" "fe_senders fe" using assms(1) by (auto simp: wired_def)
  then show ?thesis
    by (cases "\<forall>i < length (fe_exporters fe). ended i")
      (simp_all add: drop_frontend_def poller_stop_def join_exporters_def clear_senders_def ends control, auto)
qed

text \<open>The control server of a frontend is reached as long as its sockets are as it left them.\<close>

lemma started_reached:
  "control_reached (os_started w c) (assemble w path c xs)"
proof (cases "spawn (lw_spawn_world w) (fc_control_socket (frontend_of c)) (lw_os w)")
  case (Pair r os')
  show ?thesis
  proof (cases r)
    case (Inr h)
    then show ?thesis
      using spawn_Ok [of "lw_spawn_world w" "fc_control_socket (frontend_of c)" "lw_os w" h os'] Pair
      by (simp add: control_reached_def assemble_def Let_def os_started_def connect_to_def res_ok_def)
  qed (simp add: control_reached_def assemble_def Let_def res_ok_def Pair)
qed

text \<open>
  What a start relies on besides the code under \<open>src/\<close>: the OTLP plugin is registered under its
  kind, threads can be spawned, and the YAML library renders a value that reads as a non-empty
  string as a text that is not blank.
\<close>

definition values_render :: "exporter_entry \<Rightarrow> bool" where
  "values_render e \<longleftrightarrow>
     list_all (\<lambda>(k, v). case yaml_as_str v of None \<Rightarrow> True | Some s \<Rightarrow> s = [] \<or> 0 < length (extra_text v))
       (ee_extra e)"

definition host_ready :: "host_env \<Rightarrow> (otlp_exporter, 'b) start_world \<Rightarrow> bool" where
  "host_ready env w \<longleftrightarrow>
     find_factory (lw_registry w) ''otlp'' = Some (otlp_new env) \<and>
     (\<forall>n. lw_spawn w n = Ok ()) \<and>
     (\<forall>text c. lw_yaml w text = Ok c \<longrightarrow> list_all values_render (exporters_of c))"

text \<open>A running exporter is the one its entry asks for.\<close>

definition runs_entry :: "host_env \<Rightarrow> exporter_entry \<Rightarrow> otlp_exporter running_exporter \<Rightarrow> bool" where
  "runs_entry env e x \<longleftrightarrow>
     otlp_new env (entry_to_exporter_config e) = Ok (re_instance x) \<and>
     parse_duration (ee_export_timeout e) = Some (re_timeout x) \<and> Nanos 0 < re_timeout x \<and>
     ch_capacity (re_queue x) = ee_queue_depth e \<and> ch_queue (re_queue x) = []"

lemma positive_parse:
  "positive_duration s \<Longrightarrow> \<exists>d. parse_duration s = Some d \<and> Nanos 0 < d"
proof -
  assume "positive_duration s"
  then obtain d where d: "parse_duration s = Some d" "millis_wrapped d \<noteq> 0"
    by (auto simp: positive_duration_def parse_durations_agree)
  have "0 < as_nanos d" using d(2) by (cases "as_nanos d = 0") (auto simp: millis_wrapped_def)
  with d(1) show ?thesis by (auto simp: less_duration_def)
qed

lemma map_of_texts:
  "map_of (map (\<lambda>(k, v). (k, extra_text v)) xs) k = map_option extra_text (map_of xs k)"
  by (induction xs) auto

lemma endpoint_text:
  assumes "has_endpoint e" and "values_render e"
  shows "\<exists>t. map_of (xc_extra (entry_to_exporter_config e)) ''endpoint'' = Some t \<and> t \<noteq> []"
proof -
  obtain v s where v: "map_of (ee_extra e) ''endpoint'' = Some v" "yaml_as_str v = Some s" "s \<noteq> []"
    using assms(1) by (auto simp: has_endpoint_def bind_eq_Some_conv split: option.splits)
  then have "(''endpoint'', v) \<in> set (ee_extra e)" by (blast dest: map_of_SomeD)
  then have "extra_text v \<noteq> []" using assms(2) v by (auto simp: values_render_def list_all_iff)
  then show ?thesis using v(1) by (simp add: entry_to_exporter_config_def map_of_texts)
qed

lemma otlp_new_total:
  "map_of (xc_extra cfg) ''endpoint'' = Some t \<Longrightarrow> t \<noteq> [] \<Longrightarrow> \<exists>ox. otlp_new env cfg = Ok ox"
  by (simp add: otlp_new_def Let_def)

lemma build_exporters_total:
  assumes "host_ready env w" and "list_all exporter_ok es" and "list_all values_render es"
  shows "\<exists>xs. build_exporters w es = Ok xs \<and> list_all2 (runs_entry env) es xs"
  using assms(2,3)
proof (induction es)
  case (Cons e es)
  obtain xs where xs: "build_exporters w es = Ok xs" "list_all2 (runs_entry env) es xs"
    using Cons by auto
  have e: "exporter_ok e" "values_render e" using Cons.prems by auto
  obtain ox where ox: "otlp_new env (entry_to_exporter_config e) = Ok ox"
    using endpoint_text [of e] otlp_new_total e by (fastforce simp: exporter_ok_def)
  obtain d where d: "parse_duration (ee_export_timeout e) = Some d" "Nanos 0 < d"
    using positive_parse e(1) by (auto simp: exporter_ok_def)
  have "find_factory (lw_registry w) (ee_kind e) = Some (otlp_new env)" "lw_spawn w (ee_name e) = Ok ()"
    using assms(1) e(1) by (auto simp: host_ready_def exporter_ok_def)
  then have "\<exists>x. build_exporters w (e # es) = Ok (x # xs) \<and> re_instance x = ox \<and>
      re_timeout x = xc_export_timeout (entry_to_exporter_config e) \<and>
      re_queue x = snapshot_channel (ee_queue_depth e)"
    using xs(1) ox by (simp add: Let_def entry_to_exporter_config_def)
  then obtain x where x: "build_exporters w (e # es) = Ok (x # xs)" "re_instance x = ox"
      "re_timeout x = xc_export_timeout (entry_to_exporter_config e)"
      "re_queue x = snapshot_channel (ee_queue_depth e)"
    by blast
  have "xc_export_timeout (entry_to_exporter_config e) = d"
    using d(1) by (simp add: entry_to_exporter_config_def)
  moreover have "ch_capacity (snapshot_channel (ee_queue_depth e)) = ee_queue_depth e"
    using e(1) by (simp add: exporter_ok_def snapshot_channel_def sync_channel_def)
  ultimately have "runs_entry env e x"
    using x ox d by (simp add: runs_entry_def snapshot_channel_def sync_channel_def)
  then show ?case using x(1) xs(2) by blast
qed simp

lemma runs_entry_clone: "runs_entry env e (x\<lparr>re_queue := clone_sender (re_queue x)\<rparr>) = runs_entry env e x"
  by (simp add: runs_entry_def clone_sender_def)

lemma assemble_runs:
  "list_all2 (runs_entry env) es xs \<Longrightarrow> list_all2 (runs_entry env) es (fe_exporters (assemble w path c xs))"
  by (simp add: assemble_def Let_def list_all2_map2 runs_entry_clone)

text \<open>Some probe made before the timeout finds the backend.\<close>

definition backend_answers :: "('s, 'b) start_world \<Rightarrow> config \<Rightarrow> bool" where
  "backend_answers w c \<longleftrightarrow>
     (\<exists>j. vpp_stats_socket_reachable (lw_probe w j) (fc_vpp_stats_socket (frontend_of c)) \<and>
          probe_time (lw_extra w) j < startup_timeout_of (frontend_of c))"

lemma backend_reached_iff: "backend_reached w (frontend_of c) \<longleftrightarrow> backend_answers w c"
  by (simp add: backend_reached_def backend_answers_def wait_backend_iff)

definition valid_config_at :: "('s, 'b) start_world \<Rightarrow> string \<Rightarrow> config \<Rightarrow> bool" where
  "valid_config_at w path c \<longleftrightarrow>
     (\<exists>text. lw_read w path = Ok text \<and> lw_yaml w text = Ok c) \<and> config_ok c"

lemma start_OkI:
  "valid_config_at w path c \<Longrightarrow> backend_answers w c \<Longrightarrow> build_exporters w (exporters_of c) = Ok xs \<Longrightarrow>
   start w path = Ok (assemble w path c xs)"
  unfolding start_Ok valid_config_at_def backend_reached_iff by blast

lemma load_validated_cases:
  obtains (bad) m where "load_validated w f path = Err m" "\<nexists>c. valid_config_at w path c"
  | (good) c where "load_validated w f path = Ok c" "valid_config_at w path c"
proof (cases "load_validated w f path")
  case (Inr c)
  then have "valid_config_at w path c"
    by (auto simp: load_validated_def res_simps valid_config_at_def validate_config_iff_config_ok)
  then show ?thesis by (rule good [OF Inr])
next
  case (Inl m)
  have "load_validated w f path = Ok c" if "valid_config_at w path c" for c
    using that by (auto simp: load_validated_def valid_config_at_def validate_config_iff_config_ok [symmetric])
  then have "\<nexists>c. valid_config_at w path c" using Inl by auto
  then show ?thesis by (rule bad [OF Inl])
qed

section \<open>A concrete host\<close>

definition sample_entry :: exporter_entry where
  "sample_entry =
     \<lparr> ee_kind = ''otlp'', ee_name = ''main'', ee_queue_depth = 2, ee_export_timeout = ''800ms'',
       ee_on_overflow = ''drop_newest'', ee_extra = [(''endpoint'', YString ''collector:4317'')] \<rparr>"

definition sample_config :: config where
  "sample_config =
     \<lparr> cfg_frontend = None, cfg_flow_rules = [], cfg_exporters = Some [sample_entry], cfg_logging = None \<rparr>"

definition sample_env :: host_env where
  "sample_env =
     \<lparr> he_version = ''0.1.0'', he_hostname = Some ''router'', he_arch = ''x86_64'', he_machine_id = None,
       he_read_file = (\<lambda>_. None), he_new_uuid = ''id'' \<rparr>"

definition sample_world :: "(otlp_exporter, unit) start_world" where
  "sample_world =
     \<lparr> lw_read = (\<lambda>_. Ok []), lw_yaml = (\<lambda>_. Ok sample_config), lw_debug = (\<lambda>s. s),
       lw_probe = (\<lambda>i. \<lparr> sw_socket = 3, sw_connect = (\<lambda>_ _. if i = 2 then 0 else - 1) \<rparr>),
       lw_extra = (\<lambda>_. 0),
       lw_registry = [\<lparr> rg_kind = ''otlp'', rg_factory = otlp_new sample_env \<rparr>],
       lw_spawn = (\<lambda>_. Ok ()), lw_vapi = None,
       lw_spawn_world = \<lparr> sp_removable = False, sp_create_dirs = (\<lambda>_. Ok ()), sp_bind = Ok (),
         sp_new_mode = 0, sp_nonblocking = Ok (), sp_permissions = Ok (), sp_thread = Ok () \<rparr>,
       lw_os = \<lparr> os_files = Map.empty, os_live = {}, os_next = 0 \<rparr>,
       lw_snapshot_thread = Ok () \<rparr>"

lemma sample_host_ready: "host_ready sample_env sample_world"
  by (auto simp: host_ready_def sample_world_def sample_config_def sample_entry_def exporters_of_def
      values_render_def extra_text_def)

lemma parse_sample_durations:
  "parse_duration ''800ms'' = Some (from_millis 800)" "parse_duration ''5s'' = Some (from_secs 5)"
  by (simp_all add: parse_duration_def Let_def trim_graphic is_ascii_graphic_def strip_suffix_def
      suffix_to_prefix parse_u64_def from_str_radix_def to_digit_def)

lemma sample_config_ok: "config_ok sample_config"
proof -
  have "positive_duration ''800ms''"
    by (simp add: positive_duration_def parse_durations_agree parse_sample_durations)
  then show ?thesis
    by (simp add: config_ok_def sample_config_def sample_entry_def rules_ok_def exporter_ok_def
        has_endpoint_def name_ok_def lead_chars_def rest_chars_def)
qed

lemma sample_valid: "valid_config_at sample_world ''c'' sample_config"
  using sample_config_ok by (auto simp: valid_config_at_def sample_world_def)

lemma sample_answers: "backend_answers sample_world sample_config"
proof -
  have "startup_timeout_of (frontend_of sample_config) = from_secs 5"
    by (simp add: startup_timeout_of_def frontend_of_def sample_config_def default_frontend_config_def
        parse_sample_durations)
  moreover have "probe_time (lw_extra sample_world) 2 < from_secs 5"
    by (simp add: sample_world_def numeral_2_eq_2 PROBE_INTERVAL_def duration_simps)
  moreover have "vpp_stats_socket_reachable (lw_probe sample_world 2)
      (fc_vpp_stats_socket (frontend_of sample_config))"
    by (simp add: vpp_stats_socket_reachable_def sample_world_def frontend_of_def sample_config_def
        default_frontend_config_def SUN_PATH_SIZE_def)
  ultimately show ?thesis unfolding backend_answers_def by metis
qed

lemma sample_only: "valid_config_at sample_world ''c'' c \<Longrightarrow> c = sample_config"
  by (simp add: valid_config_at_def sample_world_def)

section \<open>Properties\<close>

text \<open>
  C34. The two duration parsers read the same language and agree on the value up to the wrap of
  64-bit milliseconds: validation's number is the length, in milliseconds modulo 2^64, of the
  duration the frontend then uses. So a timeout that validation takes for positive is positive.
\<close>

theorem durations_agree:
  "parse_duration_str s = map_option millis_wrapped (parse_duration s)"
  by (rule parse_durations_agree)

text \<open>
  C13. On a host where the OTLP plugin is registered, starting the frontend fails for two reasons
  only: there is no valid configuration at the path, or no probe of the stats socket before the
  startup timeout succeeds. Otherwise it succeeds, with one running exporter for each entry, in
  order, each with its entry's queue depth and a positive deadline, and with the configured
  rules in the control state. An exporter kind or setting never stops a valid configuration.
\<close>

theorem start_verdict:
  assumes "host_ready env w"
  shows "case start w path of
      Ok fe \<Rightarrow> (\<exists>c. valid_config_at w path c \<and> backend_answers w c \<and>
        list_all2 (runs_entry env) (exporters_of c) (fe_exporters fe) \<and>
        cs_flow_rules (fe_control_state fe) = cfg_flow_rules c)
    | Err (StartConfigError m) \<Rightarrow> (\<nexists>c. valid_config_at w path c)
    | Err (BackendUnreachable m) \<Rightarrow> (\<exists>c. valid_config_at w path c \<and> \<not> backend_answers w c)
    | Err e \<Rightarrow> False"
proof (cases rule: load_validated_cases
    [where w = w and path = path and f = "\<lambda>e. ''cannot read '' @ path @ '': '' @ e"])
  case (bad m)
  then show ?thesis by (simp add: start_def)
next
  case (good c)
  show ?thesis
  proof (cases "backend_answers w c")
    case True
    have "list_all exporter_ok (exporters_of c)" "list_all values_render (exporters_of c)"
      using good(2) assms
      by (auto simp: valid_config_at_def config_ok_def exporters_of_def host_ready_def split: option.splits)
    then obtain xs where xs: "build_exporters w (exporters_of c) = Ok xs"
        "list_all2 (runs_entry env) (exporters_of c) xs"
      using build_exporters_total [OF assms] by blast
    have "start w path = Ok (assemble w path c xs)"
      using good(1) True xs(1) by (simp add: start_def Let_def backend_reached_iff)
    moreover have "cs_flow_rules (fe_control_state (assemble w path c xs)) = cfg_flow_rules c"
      by (simp add: assemble_def Let_def make_control_state_def control_new_def control_with_vapi_def
          split: option.split sum.split)
    ultimately show ?thesis using good(2) True assemble_runs [OF xs(2)] by auto
  next
    case False
    then show ?thesis using good by (auto simp: start_def Let_def backend_reached_iff)
  qed
qed

theorem start_verdict_witness:
  "\<exists>fe. start sample_world ''c'' = Ok fe \<and> length (fe_exporters fe) = 1"
proof -
  note verdict = start_verdict [OF sample_host_ready, of "''c''"]
  show ?thesis
  proof (cases "start sample_world ''c''")
    case (Inl e)
    have only: "c = sample_config" if "valid_config_at sample_world ''c'' c" for c
      using that by (rule sample_only)
    show ?thesis
      using verdict Inl sample_valid sample_answers only by (cases e) auto
  next
    case (Inr fe)
    then obtain c where c: "valid_config_at sample_world ''c'' c"
        "list_all2 (runs_entry sample_env) (exporters_of c) (fe_exporters fe)"
      using verdict by auto
    have "length (exporters_of c) = 1"
      using sample_only [OF c(1)] by (simp add: exporters_of_def sample_config_def)
    then show ?thesis using Inr list_all2_lengthD [OF c(2)] by auto
  qed
qed

text \<open>
  C14. Stopping a started frontend, whatever exporters have ended by themselves, whatever has
  become of its sockets. \<open>stop\<close> comes back, with every thread joined and every sender dropped
  and the control socket taken away, exactly when there is no control server or the path of
  its socket still leads to it; otherwise it hangs in the last join. With the sockets as the
  start left them it comes back. The order matters: dropping the value without \<open>stop\<close> waits for
  ever also when one exporter thread is still running, since the handles are joined before the
  senders are gone.
\<close>

theorem stop_returns:
  assumes "start w path = Ok fe"
  shows "(if control_reached os fe
      then \<exists>fe'. stop ended os fe = Some (fe', os_stopped os fe) \<and> wound_up fe'
      else stop ended os fe = None) \<and>
    (\<exists>c. valid_config_at w path c \<and> control_reached (os_started w c) fe) \<and>
    (drop_frontend ended os fe = None \<longleftrightarrow>
      (\<exists>i < length (fe_exporters fe). \<not> ended i) \<or> \<not> control_reached os fe)"
proof -
  obtain c xs where "valid_config_at w path c" "fe = assemble w path c xs"
    using assms by (auto simp: start_Ok valid_config_at_def)
  then have "\<exists>c. valid_config_at w path c \<and> control_reached (os_started w c) fe"
    using started_reached by blast
  moreover have "drop_frontend ended os fe = None \<longleftrightarrow>
      (\<exists>i < length (fe_exporters fe). \<not> ended i) \<or> \<not> control_reached os fe"
    using start_handle [OF assms] by (intro drop_wired start_wired [OF assms]) blast
  ultimately show ?thesis using stop_started [OF assms, of os ended] by blast
qed

theorem stop_returns_witness:
  "\<exists>fe os. start sample_world ''c'' = Ok fe \<and> fe_control fe \<noteq> None \<and>
     drop_frontend (\<lambda>_. False) os fe = None \<and>
     (\<exists>fe' os'. stop (\<lambda>_. False) os fe = Some (fe', os') \<and> wound_up fe') \<and>
     stop (\<lambda>_. False) (unlink ''/run/infmon/frontend.sock'' os) fe = None"
proof -
  have es: "exporters_of sample_config = [sample_entry]"
    by (simp add: exporters_of_def sample_config_def)
  have "list_all exporter_ok [sample_entry]" "list_all values_render [sample_entry]"
    using sample_config_ok by (simp_all add: config_ok_def sample_config_def values_render_def sample_entry_def extra_text_def)
  then obtain xs where xs: "build_exporters sample_world (exporters_of sample_config) = Ok xs" "length xs = 1"
    using build_exporters_total [OF sample_host_ready, of "[sample_entry]"]
    by (auto simp: es list_all2_Cons1)
  define fe where "fe = assemble sample_world ''c'' sample_config xs"
  have start: "start sample_world ''c'' = Ok fe"
    unfolding fe_def by (rule start_OkI [OF sample_valid sample_answers xs(1)])
  have control: "fe_control fe = Some \<lparr> hd_listener = 0, hd_join = True, hd_stop = False,
      hd_socket_path = ''/run/infmon/frontend.sock'' \<rparr>"
    by (simp add: fe_def assemble_def Let_def sample_world_def spawn_def make_parent_def bind_listener_def
        frontend_of_def sample_config_def default_frontend_config_def res_ok_def split: option.splits)
  have one: "length (fe_exporters fe) = 1"
    using xs(2) by (simp add: fe_def assemble_def Let_def)
  obtain c where c: "valid_config_at sample_world ''c'' c" "control_reached (os_started sample_world c) fe"
    using stop_returns [OF start] by blast
  let ?os = "os_started sample_world c"
  have "\<not> control_reached (unlink ''/run/infmon/frontend.sock'' ?os) fe"
    by (simp add: control_reached_def control connect_to_def unlink_def)
  then show ?thesis
    using stop_returns [OF start, of ?os "\<lambda>_. False"] c(2) one control start
      stop_returns [OF start, of "unlink ''/run/infmon/frontend.sock'' ?os" "\<lambda>_. False"]
    by (intro exI [of _ fe] exI [of _ ?os]) auto
qed

end
