(* ===== verification/Pipeline.thy ===== *)
theory Pipeline
  imports Lifecycle
begin

text \<open>
  Three threads meet at the control state's latest snapshot: the poller publishes snapshots
  into the stats channel (\<open>poller.rs\<close>), the snapshot thread started in \<open>lifecycle.rs\<close> takes
  them out and stores them, and the control thread stores the one a pull was answered with
  (\<open>control.rs\<close>). Each acts in one atomic step of its own and they interleave freely; here is
  the step relation, what holds in every reachable state, and what a pull can do to the order.
\<close>

section \<open>Steps\<close>

text \<open>
  The stats channel, the snapshot the snapshot thread has received and not yet stored, the
  control state, the replies sent to pull requesters and not yet taken, and the snapshots
  published so far.
\<close>

record 'b pipe =
  pi_channel :: "flow_stats_snapshot chan"
  pi_in_hand :: "flow_stats_snapshot option"
  pi_control :: "'b control_state"
  pi_replies :: "flow_stats_snapshot list"
  pi_published :: "flow_stats_snapshot list"

definition tick :: "flow_stats_snapshot \<Rightarrow> nat" where
  "tick s = unat (sn_tick_id s)"

text \<open>The poller publishes: one attempt to send, which drops the snapshot when the channel is full.\<close>

definition pipe_publish :: "flow_stats_snapshot \<Rightarrow> 'b pipe \<Rightarrow> 'b pipe" where
  "pipe_publish s p =
     p\<lparr> pi_channel := snd (mpsc_try_send s (pi_channel p)), pi_published := pi_published p @ [s] \<rparr>"

text \<open>A snapshot made for a pull is published and sent to the requester.\<close>

definition pipe_answer :: "flow_stats_snapshot \<Rightarrow> 'b pipe \<Rightarrow> 'b pipe" where
  "pipe_answer s p = (pipe_publish s p)\<lparr> pi_replies := pi_replies p @ [s] \<rparr>"

text \<open>One round of the snapshot thread: receive, then store.\<close>

definition pipe_receive :: "'b pipe \<Rightarrow> 'b pipe option" where
  "pipe_receive p =
     (case (pi_in_hand p, mpsc_recv (pi_channel p)) of
        (None, Received snap, ch) \<Rightarrow> Some (p\<lparr> pi_channel := ch, pi_in_hand := Some snap \<rparr>)
      | _ \<Rightarrow> None)"

definition pipe_store :: "'b pipe \<Rightarrow> 'b pipe option" where
  "pipe_store p =
     (case pi_in_hand p of
        None \<Rightarrow> None
      | Some snap \<Rightarrow>
          Some (p\<lparr> pi_in_hand := None, pi_control := update_snapshot snap (pi_control p) \<rparr>))"

text \<open>The control thread takes the answer to its pull, or has stopped waiting for it.\<close>

definition pipe_pulled :: "'b pipe \<Rightarrow> 'b pipe option" where
  "pipe_pulled p =
     (case pi_replies p of
        [] \<Rightarrow> None
      | s # rest \<Rightarrow>
          Some (p\<lparr> pi_replies := rest, pi_control := (pi_control p)\<lparr>cs_latest_snapshot := Some s\<rparr> \<rparr>))"

definition pipe_timed_out :: "'b pipe \<Rightarrow> 'b pipe option" where
  "pipe_timed_out p = (case pi_replies p of [] \<Rightarrow> None | s # rest \<Rightarrow> Some (p\<lparr>pi_replies := rest\<rparr>))"

text \<open>These two are what \<open>handle_stats_pull\<close> does to the latest snapshot once its request is queued.\<close>

lemma pulled_as_handled:
  assumes "pi_replies p = s # rest" "cs_pull_tx (pi_control p) = Some tx"
    "mpsc_try_send r tx = (Ok (), tx')"
  shows "pipe_pulled p =
      Some (p\<lparr> pi_replies := rest,
        pi_control := (snd (handle_stats_pull r (Some s) (pi_control p)))\<lparr>cs_pull_tx := Some tx\<rparr> \<rparr>)"
    and "cs_latest_snapshot (snd (handle_stats_pull r None (pi_control p))) =
      cs_latest_snapshot (pi_control p)"
  using assms by (simp_all add: pipe_pulled_def handle_stats_pull_def)

text \<open>The tick the next snapshot gets; ticks are counted below the wrap of 64 bits.\<close>

definition next_tick :: "'b pipe \<Rightarrow> nat" where
  "next_tick p = Suc (length (pi_published p))"

inductive pipe_step :: "bool \<Rightarrow> 'b pipe \<Rightarrow> 'b pipe \<Rightarrow> bool" for pulls :: bool where
  publish: "tick s = next_tick p \<Longrightarrow> pipe_step pulls p (pipe_publish s p)"
| answer: "pulls \<Longrightarrow> tick s = next_tick p \<Longrightarrow> pipe_step pulls p (pipe_answer s p)"
| receive: "pipe_receive p = Some p' \<Longrightarrow> pipe_step pulls p p'"
| store: "pipe_store p = Some p' \<Longrightarrow> pipe_step pulls p p'"
| pulled: "pipe_pulled p = Some p' \<Longrightarrow> pipe_step pulls p p'"
| timed_out: "pipe_timed_out p = Some p' \<Longrightarrow> pipe_step pulls p p'"

inductive_cases pipe_stepE: "pipe_step pulls p p'"

abbreviation pipe_reach :: "bool \<Rightarrow> 'b pipe \<Rightarrow> 'b pipe \<Rightarrow> bool" where
  "pipe_reach pulls \<equiv> reaches (pipe_step pulls)"

lemmas pipe_begin = reaches.start [where step = "pipe_step pulls" for pulls]
lemmas pipe_more = reaches.more [where step = "pipe_step pulls" for pulls]

text \<open>The state \<open>Frontend::start\<close> leaves the three threads in.\<close>

definition pipe_start :: "('s, 'b) start_world \<Rightarrow> config \<Rightarrow> 'b pipe" where
  "pipe_start w config =
     \<lparr> pi_channel = sync_channel 1, pi_in_hand = None, pi_control = make_control_state w config,
       pi_replies = [], pi_published = [] \<rparr>"

lemma nothing_stored_at_start: "cs_latest_snapshot (make_control_state w config) = None"
  by (simp add: make_control_state_def control_new_def control_with_vapi_def Let_def
      split: option.splits sum.splits)

section \<open>The invariant\<close>

definition latest :: "'b pipe \<Rightarrow> flow_stats_snapshot option" where
  "latest p = cs_latest_snapshot (pi_control p)"

definition numbered :: "flow_stats_snapshot list \<Rightarrow> bool" where
  "numbered ss \<longleftrightarrow> map tick ss = [1..<Suc (length ss)]"

text \<open>What is on its way to the control state: in hand first, then queued.\<close>

definition on_the_way :: "'b pipe \<Rightarrow> flow_stats_snapshot list" where
  "on_the_way p = (case pi_in_hand p of None \<Rightarrow> [] | Some s \<Rightarrow> [s]) @ ch_queue (pi_channel p)"

definition stored :: "'b pipe \<Rightarrow> flow_stats_snapshot list" where
  "stored p = (case latest p of None \<Rightarrow> [] | Some s \<Rightarrow> [s])"

definition pipe_inv :: "'b pipe \<Rightarrow> bool" where
  "pipe_inv p \<longleftrightarrow>
     numbered (pi_published p) \<and>
     set (on_the_way p) \<union> set (pi_replies p) \<union> set (stored p) \<subseteq> set (pi_published p) \<and>
     length (ch_queue (pi_channel p)) \<le> 1 \<and> ch_capacity (pi_channel p) = 1"

text \<open>Without pulls, what is on its way is newer than what is stored, in the order of the ticks.\<close>

definition in_order :: "'b pipe \<Rightarrow> bool" where
  "in_order p \<longleftrightarrow> pi_replies p = [] \<and> sorted_wrt (<) (map tick (stored p @ on_the_way p))"

lemma numbered_tick:
  assumes "numbered ss" "s \<in> set ss"
  shows "tick s \<le> length ss"
proof -
  have "tick s \<in> set (map tick ss)" using assms(2) by simp
  then have "tick s \<in> set [1..<Suc (length ss)]"
    using assms(1) by (simp only: numbered_def)
  then show ?thesis by (simp del: upt_Suc)
qed

lemma numbered_snoc: "numbered ss \<Longrightarrow> tick s = Suc (length ss) \<Longrightarrow> numbered (ss @ [s])"
  by (simp add: numbered_def)

lemma try_send_queue:
  "ch_queue (snd (mpsc_try_send s ch)) =
     (if ch_receiver ch \<and> length (ch_queue ch) < ch_capacity ch then ch_queue ch @ [s] else ch_queue ch)"
  "ch_capacity (snd (mpsc_try_send s ch)) = ch_capacity ch"
  by (simp_all add: mpsc_try_send_def)

lemma receive_Some:
  "pipe_receive p = Some p' \<longleftrightarrow>
   (\<exists>s q. pi_in_hand p = None \<and> ch_queue (pi_channel p) = s # q \<and>
      p' = p\<lparr> pi_channel := (pi_channel p)\<lparr>ch_queue := q\<rparr>, pi_in_hand := Some s \<rparr>)"
  by (auto simp: pipe_receive_def mpsc_recv_def split: list.splits option.splits)

lemma store_Some:
  "pipe_store p = Some p' \<longleftrightarrow>
   (\<exists>s. pi_in_hand p = Some s \<and>
      p' = p\<lparr> pi_in_hand := None, pi_control := update_snapshot s (pi_control p) \<rparr>)"
  by (auto simp: pipe_store_def split: option.splits)

lemma pulled_Some:
  "pipe_pulled p = Some p' \<longleftrightarrow>
   (\<exists>s rest. pi_replies p = s # rest \<and>
      p' = p\<lparr> pi_replies := rest, pi_control := (pi_control p)\<lparr>cs_latest_snapshot := Some s\<rparr> \<rparr>)"
  by (auto simp: pipe_pulled_def split: list.splits)

lemma timed_out_Some:
  "pipe_timed_out p = Some p' \<longleftrightarrow> (\<exists>s rest. pi_replies p = s # rest \<and> p' = p\<lparr>pi_replies := rest\<rparr>)"
  by (auto simp: pipe_timed_out_def split: list.splits)

lemmas pipe_defs =
  pipe_publish_def pipe_answer_def next_tick_def latest_def stored_def on_the_way_def
  update_snapshot_def try_send_queue

lemmas pipe_enabled = receive_Some store_Some pulled_Some timed_out_Some

lemma pipe_inv_step: "pipe_inv p \<Longrightarrow> pipe_step pulls p p' \<Longrightarrow> pipe_inv p'"
  by (erule pipe_stepE)
    (auto simp: pipe_inv_def pipe_defs numbered_snoc pipe_enabled split: option.splits)

lemma pipe_inv_start: "pipe_inv (pipe_start w config)"
  by (simp add: pipe_inv_def pipe_start_def sync_channel_def numbered_def pipe_defs nothing_stored_at_start)

lemma in_order_start: "in_order (pipe_start w config)"
  by (simp add: in_order_def pipe_start_def sync_channel_def pipe_defs nothing_stored_at_start)

lemma published_older:
  "pipe_inv p \<Longrightarrow> x \<in> set (stored p @ on_the_way p) \<Longrightarrow> tick x < next_tick p"
  using numbered_tick by (fastforce simp: pipe_inv_def next_tick_def)

lemma in_order_publish:
  assumes "pipe_inv p" "in_order p" "tick s = next_tick p"
  shows "in_order (pipe_publish s p)"
proof -
  have "sorted_wrt (<) (map tick ((stored p @ on_the_way p) @ [s]))"
    using assms published_older [OF assms(1)] by (auto simp: in_order_def sorted_wrt_append)
  then show ?thesis using assms(2) by (auto simp: in_order_def pipe_defs)
qed

lemma in_order_step:
  assumes "pipe_inv p" "in_order p" "pipe_step False p p'"
  shows "in_order p'"
  using assms(3)
proof cases
  case (publish s)
  then show ?thesis using in_order_publish assms(1,2) by simp
next
  case store
  then show ?thesis using assms(2)
    by (auto simp: in_order_def pipe_enabled pipe_defs split: option.splits)
qed (use assms(2) in \<open>auto simp: in_order_def pipe_enabled pipe_defs split: option.splits\<close>)

lemma latest_step:
  assumes "in_order p" "pipe_step False p p'" "latest p = Some l"
  shows "\<exists>l'. latest p' = Some l' \<and> tick l \<le> tick l'"
  using assms(2)
  by cases
    (use assms(1,3) in \<open>auto simp: in_order_def pipe_enabled pipe_defs split: option.splits\<close>)

text \<open>The latest snapshot of the later state, if there was one before, is not older.\<close>

definition not_older :: "'b pipe \<Rightarrow> 'b pipe \<Rightarrow> bool" where
  "not_older p p' \<longleftrightarrow>
     (\<forall>l. latest p = Some l \<longrightarrow> (\<exists>l'. latest p' = Some l' \<and> tick l \<le> tick l'))"

interpretation piped: step_invariant "pipe_step pulls" pipe_inv for pulls
  by unfold_locales (rule pipe_inv_step)

interpretation stored_latest:
  step_progress "pipe_step False" "\<lambda>p. pipe_inv p \<and> in_order p" not_older
proof unfold_locales
  show "not_older p p''" if "not_older p p'" "not_older p' p''" for p p' p'' :: "'b pipe"
    using that unfolding not_older_def by (meson order_trans)
qed (auto simp: not_older_def intro: pipe_inv_step in_order_step dest: latest_step)


section \<open>Order\<close>

text \<open>
  C38. While no pull is made, the control state's latest snapshot is always one the poller
  published and its tick never decreases, however publishing, receiving and storing interleave
  and whatever the full channel dropped.
\<close>

theorem latest_in_order:
  assumes "pipe_reach False (pipe_start w config) p" "pipe_reach False p p'" "latest p = Some l"
  shows "\<exists>l'. latest p' = Some l' \<and> l' \<in> set (pi_published p') \<and> tick l \<le> tick l'"
proof -
  have p: "pipe_inv p \<and> in_order p"
    using stored_latest.reached [OF _ assms(1)] pipe_inv_start in_order_start by blast
  then have "not_older p p'" "pipe_inv p'"
    using stored_latest.reached_before stored_latest.reached assms(2) by blast+
  then show ?thesis using assms(3) by (auto simp: pipe_inv_def not_older_def stored_def)
qed

text \<open>A run: a snapshot is stored, and the next is published and stored.\<close>

definition ticked :: "u64 \<Rightarrow> flow_stats_snapshot" where
  "ticked n = \<lparr> sn_tick_id = n, sn_wall_clock_ns = 0, sn_monotonic_ns = 0, sn_interval_ns = 0,
                sn_flow_rules = [] \<rparr>"

definition pipe_held :: "'b control_state \<Rightarrow> flow_stats_snapshot list \<Rightarrow> flow_stats_snapshot option \<Rightarrow>
    flow_stats_snapshot option \<Rightarrow> flow_stats_snapshot list \<Rightarrow> flow_stats_snapshot list \<Rightarrow> 'b pipe" where
  "pipe_held st queue hand shown replies sent =
     \<lparr> pi_channel = (sync_channel 1)\<lparr>ch_queue := queue\<rparr>, pi_in_hand = hand,
       pi_control = st\<lparr>cs_latest_snapshot := shown\<rparr>,
       pi_replies = replies, pi_published = sent \<rparr>"

lemma pipe_start_held:
  "pipe_start w config = pipe_held (make_control_state w config) [] None None [] []"
  using nothing_stored_at_start [of w config]
  by (cases "make_control_state w config") (simp add: pipe_start_def pipe_held_def sync_channel_def)

lemma held_publish:
  "tick s = Suc (length ps) \<Longrightarrow> pipe_step b (pipe_held st [] h l rs ps) (pipe_held st [s] h l rs (ps @ [s]))"
  using pipe_step.publish [of s "pipe_held st [] h l rs ps" b]
  by (simp add: pipe_held_def pipe_publish_def next_tick_def sync_channel_def mpsc_try_send_def)

lemma held_answer_full:
  "tick s = Suc (length ps) \<Longrightarrow>
   pipe_step True (pipe_held st [q] h l rs ps) (pipe_held st [q] h l (rs @ [s]) (ps @ [s]))"
  using pipe_step.answer [of True s "pipe_held st [q] h l rs ps"]
  by (simp add: pipe_held_def pipe_answer_def pipe_publish_def next_tick_def sync_channel_def
      mpsc_try_send_def)

lemma held_receive: "pipe_step b (pipe_held st (s # q) None l rs ps) (pipe_held st q (Some s) l rs ps)"
  by (rule pipe_step.receive) (simp add: receive_Some pipe_held_def)

lemma held_store: "pipe_step b (pipe_held st q (Some s) l rs ps) (pipe_held st q None (Some s) rs ps)"
  by (rule pipe_step.store) (simp add: store_Some pipe_held_def update_snapshot_def)

lemma held_pulled: "pipe_step b (pipe_held st q h l (s # rs) ps) (pipe_held st q h (Some s) rs ps)"
  by (rule pipe_step.pulled) (simp add: pulled_Some pipe_held_def)

lemma tick_ticked: "tick (ticked n) = unat n"
  by (simp add: tick_def ticked_def)

lemma held_one: "pipe_reach b (pipe_start w config)
    (pipe_held (make_control_state w config) [ticked 1] None None [] [ticked 1])"
  unfolding pipe_start_held
  using pipe_more [OF pipe_begin held_publish [of "ticked 1" "[]"]]
  by (simp add: tick_ticked)

definition sample_start :: "unit control_state" where
  "sample_start = make_control_state sample_world sample_config"

theorem latest_in_order_witness:
  "\<exists>l'. latest (pipe_held sample_start [] None (Some (ticked 2)) [] [ticked 1, ticked 2] :: unit pipe)
     = Some l' \<and> l' \<in> {ticked 1, ticked 2} \<and> 1 \<le> tick l'"
proof -
  let ?one = "pipe_held sample_start [] None (Some (ticked 1)) [] [ticked 1] :: unit pipe"
  let ?two = "pipe_held sample_start [] None (Some (ticked 2)) [] [ticked 1, ticked 2] :: unit pipe"
  have r: "pipe_reach False (pipe_start sample_world sample_config) ?one"
    unfolding sample_start_def
    by (rule pipe_more [OF pipe_more [OF held_one held_receive] held_store])
  have s: "pipe_reach False ?one
      (pipe_held sample_start [ticked 2] None (Some (ticked 1)) [] [ticked 1, ticked 2])"
    using pipe_more [OF pipe_begin held_publish [of "ticked 2" "[ticked 1]"]]
    by (simp add: tick_ticked)
  have "pipe_reach False ?one ?two"
    by (rule pipe_more [OF pipe_more [OF s held_receive] held_store])
  then show ?thesis
    using latest_in_order [OF r, of ?two "ticked 1"] by (simp add: latest_def pipe_held_def tick_ticked)
qed

text \<open>
  C40. With pulls this fails: there is a run in which \<open>stats pull\<close> stores the snapshot of a later
  tick and the snapshot thread then overwrites it with that of an earlier one, after which
  nothing is on its way, so that \<open>stats show\<close> keeps answering from the earlier one. The poller
  publishes nothing in between: the answer's own copy was dropped by the full channel.
\<close>

theorem pull_goes_back:
  "\<exists>p p' l l'. pipe_reach True (pipe_start w config) p \<and> pipe_reach True p p' \<and>
     latest p = Some l \<and> latest p' = Some l' \<and> tick l' < tick l \<and>
     pi_published p' = pi_published (p :: 'b pipe) \<and> on_the_way p' = [] \<and> pi_replies p' = []"
proof -
  let ?st = "make_control_state w config"
  let ?ps = "[ticked 1, ticked 2]"
  let ?p = "pipe_held ?st [ticked 1] None (Some (ticked 2)) [] ?ps :: 'b pipe"
  let ?p' = "pipe_held ?st [] None (Some (ticked 1)) [] ?ps :: 'b pipe"
  have "pipe_reach True (pipe_start w config)
      (pipe_held ?st [ticked 1] None None [ticked 2] ?ps :: 'b pipe)"
    using pipe_more [OF held_one held_answer_full [of "ticked 2" "[ticked 1]"]]
    by (simp add: tick_ticked)
  then have "pipe_reach True (pipe_start w config) ?p" by (rule pipe_more) (rule held_pulled)
  moreover have "pipe_reach True ?p ?p'"
    by (rule pipe_more [OF pipe_more [OF pipe_begin held_receive] held_store])
  moreover have "latest ?p = Some (ticked 2)" "latest ?p' = Some (ticked 1)" "on_the_way ?p' = []"
      "pi_published ?p' = pi_published ?p" "pi_replies ?p' = []"
    by (simp_all add: latest_def pipe_held_def on_the_way_def)
  moreover have "tick (ticked 1) < tick (ticked 2)" by (simp add: tick_ticked)
  ultimately show ?thesis by blast
qed

end
