(* ===== verification/Delivery.thy ===== *)
theory Delivery
  imports Steps PollLoop Exporter "HOL-Library.Sublist"
begin

text \<open>
  The way of a snapshot from the poller to the exporters, composed of what \<open>poller.rs\<close>,
  \<open>exporter.rs\<close> and \<open>lifecycle.rs\<close> do: the poller takes its turns, every exporter thread takes
  snapshots off its own channel and dispatches them to its plugin, and at shutdown the two
  holders of the senders, the poller and the frontend, let go of them. The threads interleave
  freely. Each exporter turns out to run exactly as the sequential \<open>exporter_thread\<close> on a
  subsequence of what was published, and none of them can disturb the poller or another.
\<close>

section \<open>Threads\<close>

text \<open>
  An exporter thread is in its receive loop, has left it and not yet shut the plugin down, or
  has ended, which drops its receiver. \<open>th_taken\<close> and \<open>th_slept\<close> are its history.
\<close>

datatype phase = Looping | Leaving | Ended

record 's export_thread =
  th_exporter :: "'s exporter"
  th_state :: "'s \<times> duration"
  th_phase :: phase
  th_taken :: "flow_stats_snapshot list"
  th_slept :: "duration list"

text \<open>
  Channel \<open>i\<close> of the poller's senders is the one thread \<open>i\<close> receives from. \<open>dl_holders\<close> counts
  the holders of the senders; with two the poller still runs. \<open>dl_turns\<close> and \<open>dl_published\<close>
  are the poller's history.
\<close>

record 's delivery =
  dl_loop :: loop_vars
  dl_threads :: "'s export_thread list"
  dl_holders :: nat
  dl_turns :: "turn_world list"
  dl_published :: "flow_stats_snapshot list"

definition channel :: "'s delivery \<Rightarrow> nat \<Rightarrow> flow_stats_snapshot chan" where
  "channel d i = lv_senders (dl_loop d) ! i"

definition set_channel :: "nat \<Rightarrow> flow_stats_snapshot chan \<Rightarrow> 's delivery \<Rightarrow> 's delivery" where
  "set_channel i ch d =
     d\<lparr> dl_loop := (dl_loop d)\<lparr>lv_senders := (lv_senders (dl_loop d))[i := ch]\<rparr> \<rparr>"

definition set_thread :: "nat \<Rightarrow> 's export_thread \<Rightarrow> 's delivery \<Rightarrow> 's delivery" where
  "set_thread i t d = d\<lparr> dl_threads := (dl_threads d)[i := t] \<rparr>"

section \<open>Steps\<close>

definition poller_turn :: "poller_config \<Rightarrow> turn_world \<Rightarrow> 's delivery \<Rightarrow> 's delivery" where
  "poller_turn cfg w d =
     (case turn cfg w (dl_loop d) of
        (lv, fx) \<Rightarrow> d\<lparr> dl_loop := lv, dl_turns := dl_turns d @ [w],
                      dl_published := dl_published d @ fx_published fx \<rparr>)"

text \<open>The poller ends, and later the frontend clears its senders: one sender of each channel goes.\<close>

definition release_senders :: "'s delivery \<Rightarrow> 's delivery" where
  "release_senders d =
     d\<lparr> dl_loop := (dl_loop d)\<lparr>lv_senders := map drop_sender (lv_senders (dl_loop d))\<rparr>,
        dl_holders := dl_holders d - 1 \<rparr>"

text \<open>What thread \<open>i\<close> does next, or \<open>None\<close> when it waits for a snapshot or has ended.\<close>

definition thread_step :: "nat \<Rightarrow> 's delivery \<Rightarrow> 's delivery option" where
  "thread_step i d =
     (let t = dl_threads d ! i
      in case th_phase t of
           Looping \<Rightarrow>
             (case receiver_recv (channel d i) of
                (Waiting, _) \<Rightarrow> None
              | (HungUp, _) \<Rightarrow> None
              | (Received None, ch) \<Rightarrow>
                  Some (set_thread i (t\<lparr>th_phase := Leaving\<rparr>) (set_channel i ch d))
              | (Received (Some snap), ch) \<Rightarrow>
                  (case dispatch (th_exporter t) snap (th_state t) of
                     (sb, slept, exit) \<Rightarrow>
                       Some (set_thread i
                         (t\<lparr> th_state := sb, th_taken := th_taken t @ [snap],
                             th_slept := th_slept t @ slept,
                             th_phase := (if exit = Break then Leaving else Looping) \<rparr>)
                         (set_channel i ch d))))
         | Leaving \<Rightarrow>
             Some (set_thread i
               (t\<lparr> th_state := (ex_shutdown (th_exporter t) (fst (th_state t)), snd (th_state t)),
                   th_phase := Ended \<rparr>)
               (set_channel i (drop_receiver (channel d i)) d))
         | Ended \<Rightarrow> None)"

inductive delivery_step :: "poller_config \<Rightarrow> 's delivery \<Rightarrow> 's delivery \<Rightarrow> bool" for cfg where
  poll: "dl_holders d = 2 \<Longrightarrow> delivery_step cfg d (poller_turn cfg w d)"
| let_go: "0 < dl_holders d \<Longrightarrow> delivery_step cfg d (release_senders d)"
| thread: "i < length (dl_threads d) \<Longrightarrow> thread_step i d = Some d' \<Longrightarrow> delivery_step cfg d d'"

inductive_cases delivery_stepE: "delivery_step cfg d d'"

abbreviation delivery_reach :: "poller_config \<Rightarrow> 's delivery \<Rightarrow> 's delivery \<Rightarrow> bool" where
  "delivery_reach cfg \<equiv> reaches (delivery_step cfg)"

lemmas delivery_begin = reaches.start [where step = "delivery_step cfg" for cfg]
lemmas delivery_more = reaches.more [where step = "delivery_step cfg" for cfg]

text \<open>
  The start: for every exporter its plugin with its initial state and the depth of its queue.
  The frontend keeps a sender of each channel and gives the poller a clone.
\<close>

definition new_thread :: "'s exporter \<times> 's \<times> nat \<Rightarrow> 's export_thread" where
  "new_thread e =
     (case e of (ex, s, depth) \<Rightarrow>
        \<lparr> th_exporter = ex, th_state = (s, FIRST_BACKOFF), th_phase = Looping, th_taken = [],
          th_slept = [] \<rparr>)"

definition new_channel :: "'s exporter \<times> 's \<times> nat \<Rightarrow> flow_stats_snapshot chan" where
  "new_channel e = (case e of (ex, s, depth) \<Rightarrow> clone_sender (snapshot_channel depth))"

definition delivery_start :: "('s exporter \<times> 's \<times> nat) list \<Rightarrow> 's delivery" where
  "delivery_start exs =
     \<lparr> dl_loop = loop_start (map new_channel exs), dl_threads = map new_thread exs,
       dl_holders = 2, dl_turns = [], dl_published = [] \<rparr>"

section \<open>What a thread has done\<close>

text \<open>The plugin has been fed these snapshots one after the other; \<open>Break\<close> says it refused the last.\<close>

inductive fed :: "'s exporter \<Rightarrow> 's \<Rightarrow> flow_stats_snapshot list \<Rightarrow> 's \<times> duration \<Rightarrow> duration list \<Rightarrow>
    loop_exit \<Rightarrow> bool" for ex s0 where
  none: "fed ex s0 [] (s0, FIRST_BACKOFF) [] Continue"
| one_more: "fed ex s0 xs sb slept Continue \<Longrightarrow> dispatch ex x sb = (sb', slept', exit) \<Longrightarrow>
    fed ex s0 (xs @ [x]) sb' (slept @ slept') exit"

lemma fed_loop:
  "fed ex s0 xs sb slept exit \<Longrightarrow>
   dispatch_loop ex (xs @ ys) (s0, FIRST_BACKOFF) =
     (if exit = Break then (sb, slept, ys)
      else case dispatch_loop ex ys sb of (sb2, slept2, left) \<Rightarrow> (sb2, slept @ slept2, left))"
proof (induction arbitrary: ys rule: fed.induct)
  case (one_more xs sb slept x sb' slept' exit)
  then show ?case
    using one_more.IH [of "x # ys"] by (cases exit) (simp_all split: prod.splits)
qed (simp split: prod.splits)

lemma fed_thread:
  assumes "fed ex s0 xs (s, b) slept exit"
  shows "exporter_thread ex xs s0 = (ex_shutdown ex s, slept, [])"
  using fed_loop [OF assms, of "[]"] by (simp add: exporter_thread_def split: if_splits)

text \<open>The thread breaks off exactly when the plugin's last outcome is a permanent error.\<close>

lemma fed_outcomes:
  "fed ex s0 xs sb slept exit \<Longrightarrow>
   (\<forall>ys. exit = Continue \<longrightarrow> outcomes ex (xs @ ys) s0 = outcomes ex xs s0 @ outcomes ex ys (fst sb)) \<and>
   (exit = Break \<longleftrightarrow> outcomes ex xs s0 \<noteq> [] \<and> is_permanent (last (outcomes ex xs s0)))"
proof (induction rule: fed.induct)
  case (one_more xs sb slept x sb' slept' exit)
  have split: "outcomes ex (xs @ x # ys) s0 = outcomes ex xs s0 @ outcomes ex (x # ys) (fst sb)" for ys
    using one_more.IH by blast
  show ?case
  proof (cases rule: dispatch_cases [where ex = ex and snap = x and s = "fst sb" and b = "snd sb"])
    case (success s1)
    then show ?thesis using one_more.hyps split by simp
  next
    case (retry r s1)
    then show ?thesis using one_more.hyps split by simp
  next
    case (stop e s1)
    then show ?thesis using one_more.hyps split by simp
  qed
qed simp

section \<open>The poller is undisturbed\<close>

text \<open>What a turn does does not depend on the channels: sending never blocks and never fails it.\<close>

definition same_vars :: "loop_vars \<Rightarrow> loop_vars \<Rightarrow> bool" where
  "same_vars lv lv2 \<longleftrightarrow> lv\<lparr>lv_senders := []\<rparr> = lv2\<lparr>lv_senders := []\<rparr>"

lemma same_vars_simps:
  "same_vars lv lv2 \<longleftrightarrow> lv_client lv = lv_client lv2 \<and> lv_tick_id lv = lv_tick_id lv2 \<and>
     lv_prev_mono lv = lv_prev_mono lv2 \<and> lv_backoff lv = lv_backoff lv2"
  by (cases lv; cases lv2) (auto simp: same_vars_def)

lemma publish_same:
  "same_vars lv lv2 \<Longrightarrow> fst (publish rank raw wall mono_ns lv) = fst (publish rank raw wall mono_ns lv2) \<and>
   same_vars (snd (publish rank raw wall mono_ns lv)) (snd (publish rank raw wall mono_ns lv2))"
  by (auto simp: same_vars_simps publish_def Let_def)

lemma serve_pulls_same:
  "same_vars lv lv2 \<Longrightarrow> snd (serve_pulls w lv) = snd (serve_pulls w lv2) \<and>
   same_vars (fst (serve_pulls w lv)) (fst (serve_pulls w lv2))"
  using publish_same [of lv lv2]
  by (auto simp: serve_pulls_def same_vars_simps split: sum.splits prod.splits)
    (metis prod.sel)+

lemma connected_turn_same:
  assumes "same_vars lv lv2"
  shows "snd (connected_turn cfg w lv) = snd (connected_turn cfg w lv2) \<and>
   same_vars (fst (connected_turn cfg w lv)) (fst (connected_turn cfg w lv2))"
proof (cases "tw_snapshot w")
  case (Inl e)
  then show ?thesis using assms by (auto simp: connected_turn_def same_vars_simps)
next
  case (Inr raw)
  obtain s1 l1 where p1: "publish (tw_rank w) raw (tw_wall w) (tw_mono w) lv = (s1, l1)" by fastforce
  obtain s2 l2 where p2: "publish (tw_rank w) raw (tw_wall w) (tw_mono w) lv2 = (s2, l2)" by fastforce
  have "s1 = s2" "same_vars l1 l2"
    using publish_same [OF assms, of "tw_rank w" raw "tw_wall w" "tw_mono w"] by (simp_all add: p1 p2)
  then show ?thesis
    using serve_pulls_same [of l1 l2 w] Inr p1 p2
    by (auto simp: connected_turn_def split: prod.splits)
qed

lemma turn_same:
  "same_vars lv lv2 \<Longrightarrow> snd (turn cfg w lv) = snd (turn cfg w lv2) \<and>
   same_vars (fst (turn cfg w lv)) (fst (turn cfg w lv2))"
  using connected_turn_same [of lv lv2 cfg w]
    connected_turn_same [of "lv\<lparr>lv_client := True, lv_backoff := INITIAL_BACKOFF, lv_prev_mono := 0\<rparr>"
      "lv2\<lparr>lv_client := True, lv_backoff := INITIAL_BACKOFF, lv_prev_mono := 0\<rparr>" cfg w]
  by (simp add: turn_def same_vars_simps)

lemma run_loop_snoc:
  "run_loop cfg (ws @ [w]) lv =
     (case run_loop cfg ws lv of (lv1, fxs) \<Rightarrow>
        case turn cfg w lv1 of (lv2, fx) \<Rightarrow> (lv2, fxs @ [fx]))"
  by (induction ws arbitrary: lv) (simp_all split: prod.splits)

section \<open>The invariant\<close>

definition offer :: "'a list \<Rightarrow> 'a chan \<Rightarrow> 'a chan" where
  "offer xs ch = fold (\<lambda>x c. snd (mpsc_try_send x c)) xs ch"

text \<open>What a channel makes of a sequence of sends: it takes some of them, all when there is room.\<close>

lemma offer_taken:
  "ch_receiver ch \<Longrightarrow> length (ch_queue ch) \<le> ch_capacity ch \<Longrightarrow>
   \<exists>acc. offer xs ch = ch\<lparr>ch_queue := ch_queue ch @ acc\<rparr> \<and> subseq acc xs \<and>
     length (ch_queue ch @ acc) \<le> ch_capacity ch \<and>
     (length (ch_queue ch) + length xs \<le> ch_capacity ch \<longrightarrow> acc = xs)"
proof (induction xs arbitrary: ch)
  case Nil
  then show ?case by (intro exI [of _ "[]"]) (simp add: offer_def)
next
  case (Cons x xs)
  let ?ch1 = "if length (ch_queue ch) < ch_capacity ch then ch\<lparr>ch_queue := ch_queue ch @ [x]\<rparr> else ch"
  have "snd (mpsc_try_send x ch) = ?ch1"
    using Cons.prems by (simp add: mpsc_try_send_def)
  then have step: "offer (x # xs) ch = offer xs ?ch1" by (simp only: offer_def fold_simps)
  have "ch_receiver ?ch1" "length (ch_queue ?ch1) \<le> ch_capacity ?ch1" using Cons.prems by auto
  then obtain acc where acc: "offer xs ?ch1 = ?ch1\<lparr>ch_queue := ch_queue ?ch1 @ acc\<rparr>" "subseq acc xs"
      "length (ch_queue ?ch1 @ acc) \<le> ch_capacity ?ch1"
      "length (ch_queue ?ch1) + length xs \<le> ch_capacity ?ch1 \<longrightarrow> acc = xs"
    using Cons.IH by blast
  show ?case
  proof (cases "length (ch_queue ch) < ch_capacity ch")
    case True
    then show ?thesis using acc by (intro exI [of _ "x # acc"]) (simp add: step)
  next
    case False
    then show ?thesis using acc by (intro exI [of _ acc]) (auto simp: step)
  qed
qed

lemma offer_gone: "\<not> ch_receiver ch \<Longrightarrow> offer xs ch = ch"
  by (induction xs) (simp_all add: offer_def mpsc_try_send_def)

text \<open>The thread's history against its phase: why it left the loop, and that it was shut down.\<close>

fun phase_ok :: "'s exporter \<Rightarrow> 's \<Rightarrow> nat \<Rightarrow> flow_stats_snapshot list \<Rightarrow> 's export_thread \<Rightarrow> phase \<Rightarrow> bool" where
  "phase_ok ex s0 holders queue t Looping \<longleftrightarrow> fed ex s0 (th_taken t) (th_state t) (th_slept t) Continue"
| "phase_ok ex s0 holders queue t Leaving \<longleftrightarrow>
     (\<exists>exit. fed ex s0 (th_taken t) (th_state t) (th_slept t) exit \<and>
        (exit = Continue \<longrightarrow> queue = [] \<and> holders = 0))"
| "phase_ok ex s0 holders queue t Ended \<longleftrightarrow>
     (\<exists>s exit. fed ex s0 (th_taken t) (s, snd (th_state t)) (th_slept t) exit \<and>
        fst (th_state t) = ex_shutdown ex s \<and> (exit = Continue \<longrightarrow> holders = 0))"

definition thread_ok ::
    "'s exporter \<times> 's \<times> nat \<Rightarrow> nat \<Rightarrow> flow_stats_snapshot list \<Rightarrow> 's export_thread \<Rightarrow>
     flow_stats_snapshot chan \<Rightarrow> bool" where
  "thread_ok e holders pub t ch \<longleftrightarrow>
     (case e of (ex, s0, depth) \<Rightarrow>
        th_exporter t = ex \<and> ch_capacity ch = max 1 depth \<and>
        length (ch_queue ch) \<le> ch_capacity ch \<and> ch_senders ch = holders \<and>
        subseq (th_taken t @ ch_queue ch) pub \<and>
        (ch_receiver ch \<longleftrightarrow> th_phase t \<noteq> Ended) \<and> (th_phase t = Ended \<longrightarrow> ch_queue ch = []) \<and>
        (th_phase t = Looping \<longrightarrow> length pub \<le> ch_capacity ch \<longrightarrow> th_taken t @ ch_queue ch = pub) \<and>
        phase_ok ex s0 holders (ch_queue ch) t (th_phase t))"

text \<open>Publishing, letting go of a sender, and a step of the thread itself keep it.\<close>

lemma thread_ok_offer:
  assumes "thread_ok e holders pub t ch" "0 < holders"
  shows "thread_ok e holders (pub @ new) t (offer new ch)"
proof (cases "th_phase t = Ended")
  case True
  then show ?thesis
    using assms by (auto simp: thread_ok_def offer_gone subseq_rev_drop_many split: prod.splits)
next
  case False
  then have "ch_receiver ch" "length (ch_queue ch) \<le> ch_capacity ch"
    using assms by (auto simp: thread_ok_def)
  then obtain acc where acc: "offer new ch = ch\<lparr>ch_queue := ch_queue ch @ acc\<rparr>" "subseq acc new"
      "length (ch_queue ch @ acc) \<le> ch_capacity ch"
      "length (ch_queue ch) + length new \<le> ch_capacity ch \<longrightarrow> acc = new"
    using offer_taken by metis
  have sub: "subseq (th_taken t @ ch_queue ch @ acc) (pub @ new)"
    using assms acc(2) list_emb_append_mono [of "(=)" "th_taken t @ ch_queue ch" pub acc new]
    by (auto simp: thread_ok_def)
  have "acc = new" if "th_phase t = Looping" "length (pub @ new) \<le> ch_capacity ch"
    using acc(4) assms that by (auto simp: thread_ok_def dest: arg_cong [of _ _ length])
  then show ?thesis
    using assms False acc sub by (cases "th_phase t") (auto simp: thread_ok_def split: prod.splits)
qed

lemma thread_ok_drop:
  assumes "thread_ok e holders pub t ch"
  shows "thread_ok e (holders - 1) pub t (drop_sender ch)"
proof -
  have "phase_ok ex s0 holders q t ph \<Longrightarrow> phase_ok ex s0 (holders - 1) q t ph" for ex s0 q ph
    by (cases ph) force+
  then show ?thesis using assms by (auto simp: thread_ok_def drop_sender_def split: prod.splits)
qed

text \<open>The outcomes of a step of thread \<open>i\<close>.\<close>

lemma thread_step_cases:
  assumes "thread_step i d = Some d'"
  obtains (hung_up) "th_phase (dl_threads d ! i) = Looping" "ch_queue (channel d i) = []"
      "ch_senders (channel d i) = 0"
      "d' = set_thread i ((dl_threads d ! i)\<lparr>th_phase := Leaving\<rparr>) (set_channel i (channel d i) d)"
  | (taken) snap q sb slept exit where "th_phase (dl_threads d ! i) = Looping"
      "ch_queue (channel d i) = snap # q"
      "dispatch (th_exporter (dl_threads d ! i)) snap (th_state (dl_threads d ! i)) = (sb, slept, exit)"
      "d' = set_thread i ((dl_threads d ! i)\<lparr> th_state := sb, th_taken := th_taken (dl_threads d ! i) @ [snap],
               th_slept := th_slept (dl_threads d ! i) @ slept,
               th_phase := (if exit = Break then Leaving else Looping) \<rparr>)
            (set_channel i ((channel d i)\<lparr>ch_queue := q\<rparr>) d)"
  | (ended) "th_phase (dl_threads d ! i) = Leaving"
      "d' = set_thread i ((dl_threads d ! i)\<lparr> th_state := (ex_shutdown (th_exporter (dl_threads d ! i)) (fst (th_state (dl_threads d ! i))),
                            snd (th_state (dl_threads d ! i))),
               th_phase := Ended \<rparr>)
            (set_channel i (drop_receiver (channel d i)) d)"
  using assms
  by (auto simp: thread_step_def Let_def receiver_recv_def mpsc_recv_def
      split: phase.splits list.splits if_splits prod.splits)

text \<open>The thread's own step, as seen on its record and its channel.\<close>

lemma thread_ok_hung_up:
  "thread_ok e holders pub t ch \<Longrightarrow> th_phase t = Looping \<Longrightarrow> ch_queue ch = [] \<Longrightarrow> ch_senders ch = 0 \<Longrightarrow>
   thread_ok e holders pub (t\<lparr>th_phase := Leaving\<rparr>) ch"
  by (auto simp: thread_ok_def split: prod.splits)

lemma thread_ok_taken:
  assumes "thread_ok e holders pub t ch" "th_phase t = Looping" "ch_queue ch = snap # q"
    "dispatch (th_exporter t) snap (th_state t) = (sb, slept, exit)"
  shows "thread_ok e holders pub
    (t\<lparr> th_state := sb, th_taken := th_taken t @ [snap], th_slept := th_slept t @ slept,
        th_phase := (if exit = Break then Leaving else Looping) \<rparr>)
    (ch\<lparr>ch_queue := q\<rparr>)"
proof -
  obtain s0 depth where e: "e = (th_exporter t, s0, depth)"
    using assms(1) by (auto simp: thread_ok_def)
  have "fed (th_exporter t) s0 (th_taken t @ [snap]) sb (th_slept t @ slept) exit"
    using assms e by (auto simp: thread_ok_def intro: fed.one_more)
  then show ?thesis
    using assms e by (cases exit) (auto simp: thread_ok_def)
qed

lemma thread_ok_subseq:
  assumes "thread_ok e holders pub t ch"
  shows "subseq (th_taken t) pub"
proof -
  have "subseq (th_taken t) (th_taken t @ ch_queue ch)" by (simp add: subseq_rev_drop_many)
  moreover have "subseq (th_taken t @ ch_queue ch) pub"
    using assms by (cases e) (simp add: thread_ok_def)
  ultimately show ?thesis by (rule subseq_order.trans)
qed

lemma thread_ok_ended:
  assumes "thread_ok e holders pub t ch" "th_phase t = Leaving"
  shows "thread_ok e holders pub
    (t\<lparr> th_state := (ex_shutdown (th_exporter t) (fst (th_state t)), snd (th_state t)), th_phase := Ended \<rparr>)
    (drop_receiver ch)"
proof -
  obtain s0 depth where e: "e = (th_exporter t, s0, depth)"
    using assms(1) by (auto simp: thread_ok_def)
  have "subseq (th_taken t) pub" by (rule thread_ok_subseq [OF assms(1)])
  moreover obtain exit where "fed (th_exporter t) s0 (th_taken t) (th_state t) (th_slept t) exit"
      "exit = Continue \<longrightarrow> holders = 0"
    using assms e by (auto simp: thread_ok_def)
  then have "phase_ok (th_exporter t) s0 holders []
      (t\<lparr> th_state := (ex_shutdown (th_exporter t) (fst (th_state t)), snd (th_state t)), th_phase := Ended \<rparr>) Ended"
    by (auto intro!: exI [of _ "fst (th_state t)"] exI [of _ exit])
  ultimately show ?thesis
    using assms(1) e by (simp add: thread_ok_def drop_receiver_def)
qed

text \<open>The poller's variables and publications are those of an undisturbed run of its loop.\<close>

definition undisturbed :: "poller_config \<Rightarrow> flow_stats_snapshot chan list \<Rightarrow> 's delivery \<Rightarrow> bool" where
  "undisturbed cfg chans d \<longleftrightarrow>
     same_vars (dl_loop d) (fst (run_loop cfg (dl_turns d) (loop_start chans))) \<and>
     dl_published d = published (snd (run_loop cfg (dl_turns d) (loop_start chans)))"

definition delivery_inv :: "poller_config \<Rightarrow> ('s exporter \<times> 's \<times> nat) list \<Rightarrow> 's delivery \<Rightarrow> bool" where
  "delivery_inv cfg exs d \<longleftrightarrow>
     length (dl_threads d) = length exs \<and> length (lv_senders (dl_loop d)) = length exs \<and>
     (\<forall>i < length exs. thread_ok (exs ! i) (dl_holders d) (dl_published d) (dl_threads d ! i) (channel d i)) \<and>
     undisturbed cfg (map new_channel exs) d"

lemma delivery_invD:
  "delivery_inv cfg exs d \<Longrightarrow> i < length exs \<Longrightarrow>
   thread_ok (exs ! i) (dl_holders d) (dl_published d) (dl_threads d ! i) (channel d i)"
  by (simp add: delivery_inv_def)

lemma thread_ok_start: "thread_ok e 2 [] (new_thread e) (new_channel e)"
  by (cases e) (simp add: thread_ok_def new_thread_def new_channel_def clone_sender_def
      snapshot_channel_def sync_channel_def Let_def fed.none)

lemma delivery_inv_start: "delivery_inv cfg exs (delivery_start exs)"
  by (simp add: thread_ok_start delivery_inv_def delivery_start_def channel_def loop_start_def undisturbed_def
      same_vars_def published_def)

lemma undisturbed_turn: "undisturbed cfg chans d \<Longrightarrow> undisturbed cfg chans (poller_turn cfg w d)"
  using turn_same [of "dl_loop d" "fst (run_loop cfg (dl_turns d) (loop_start chans))" cfg w]
  by (auto simp: undisturbed_def poller_turn_def run_loop_snoc published_def split: prod.splits)

lemma delivery_inv_turn:
  assumes "delivery_inv cfg exs d" "dl_holders d = 2"
  shows "delivery_inv cfg exs (poller_turn cfg w d)"
proof -
  obtain lv fx where t: "turn cfg w (dl_loop d) = (lv, fx)" by fastforce
  have senders: "lv_senders lv = map (offer (fx_published fx)) (lv_senders (dl_loop d))"
    using turn_ok [OF t] by (simp add: step_ok_def offer_def)
  have len: "length (lv_senders (dl_loop d)) = length exs" using assms(1) by (simp add: delivery_inv_def)
  have "thread_ok (exs ! i) 2 (dl_published d @ fx_published fx) (dl_threads d ! i) (lv_senders lv ! i)"
    if "i < length exs" for i
    using thread_ok_offer [OF delivery_invD [OF assms(1) that]] that len
    by (simp add: senders assms(2) channel_def)
  moreover have "undisturbed cfg (map new_channel exs) (poller_turn cfg w d)"
    using assms(1) by (simp add: delivery_inv_def undisturbed_turn)
  ultimately show ?thesis
    using assms by (simp add: delivery_inv_def poller_turn_def t senders channel_def)
qed

lemma delivery_inv_release:
  assumes "delivery_inv cfg exs d"
  shows "delivery_inv cfg exs (release_senders d)"
proof -
  have "thread_ok (exs ! i) (dl_holders d - 1) (dl_published d) (dl_threads d ! i) (drop_sender (channel d i))"
    if "i < length exs" for i
    using thread_ok_drop delivery_invD [OF assms that] by blast
  then show ?thesis
    using assms by (simp add: delivery_inv_def release_senders_def channel_def undisturbed_def same_vars_simps)
qed

lemma set_simps [simp]:
  "dl_holders (set_thread i t d) = dl_holders d" "dl_published (set_thread i t d) = dl_published d"
  "dl_turns (set_thread i t d) = dl_turns d" "dl_loop (set_thread i t d) = dl_loop d"
  "dl_threads (set_thread i t d) = (dl_threads d)[i := t]"
  "dl_holders (set_channel i ch d) = dl_holders d" "dl_published (set_channel i ch d) = dl_published d"
  "dl_turns (set_channel i ch d) = dl_turns d" "dl_threads (set_channel i ch d) = dl_threads d"
  "dl_loop (set_channel i ch d) = (dl_loop d)\<lparr>lv_senders := (lv_senders (dl_loop d))[i := ch]\<rparr>"
  by (simp_all add: set_thread_def set_channel_def)

lemma delivery_inv_update:
  assumes "delivery_inv cfg exs d" "i < length exs"
    "thread_ok (exs ! i) (dl_holders d) (dl_published d) t ch"
  shows "delivery_inv cfg exs (set_thread i t (set_channel i ch d))"
proof -
  have "thread_ok (exs ! j) (dl_holders d) (dl_published d) ((dl_threads d)[i := t] ! j)
      ((lv_senders (dl_loop d))[i := ch] ! j)" if "j < length exs" for j
    using that assms by (cases "i = j") (auto simp: delivery_inv_def channel_def)
  then show ?thesis
    using assms(1) by (simp add: delivery_inv_def channel_def undisturbed_def same_vars_simps)
qed

lemma delivery_inv_thread:
  assumes "delivery_inv cfg exs d" "i < length exs" "thread_step i d = Some d'"
  shows "delivery_inv cfg exs d'"
proof -
  let ?t = "dl_threads d ! i" and ?ch = "channel d i"
  have ok: "thread_ok (exs ! i) (dl_holders d) (dl_published d) ?t ?ch"
    using assms(1,2) by (simp add: delivery_inv_def)
  show ?thesis
    using assms(3)
  proof (cases rule: thread_step_cases)
    case hung_up
    then show ?thesis using delivery_inv_update [OF assms(1,2)] thread_ok_hung_up [OF ok] by simp
  next
    case (taken snap q sb slept exit)
    then show ?thesis using delivery_inv_update [OF assms(1,2) thread_ok_taken [OF ok taken(1-3)]] by simp
  next
    case ended
    then show ?thesis using delivery_inv_update [OF assms(1,2) thread_ok_ended [OF ok ended(1)]] by simp
  qed
qed

lemma delivery_inv_step:
  assumes "delivery_inv cfg exs d" "delivery_step cfg d d'"
  shows "delivery_inv cfg exs d'"
  using assms(2)
proof cases
  case (thread i)
  then show ?thesis using delivery_inv_thread assms(1) by (metis delivery_inv_def)
qed (use assms(1) delivery_inv_turn delivery_inv_release in auto)

interpretation delivering: step_invariant "delivery_step cfg" "delivery_inv cfg exs" for cfg exs
  by unfold_locales (rule delivery_inv_step)

lemmas delivery_inv_reach = delivering.reached [OF delivery_inv_start]

section \<open>Order of the ticks\<close>

lemma run_loop_same:
  "same_vars lv lv2 \<Longrightarrow> snd (run_loop cfg ws lv) = snd (run_loop cfg ws lv2)"
proof (induction ws arbitrary: lv lv2)
  case (Cons w ws)
  obtain a fx b fx2 where t: "turn cfg w lv = (a, fx)" "turn cfg w lv2 = (b, fx2)" by fastforce
  then have "fx = fx2" "same_vars a b" using turn_same [OF Cons.prems, of cfg w] by auto
  then show ?case using Cons.IH [of a b] t by (auto split: prod.splits)
qed simp

definition snap_tick :: "flow_stats_snapshot \<Rightarrow> nat" where
  "snap_tick s = unat (sn_tick_id s)"

lemma well_numbered_ticks:
  "well_numbered t ss \<Longrightarrow> unat t + length ss < 2 ^ 64 \<Longrightarrow>
   map snap_tick ss = [Suc (unat t)..<Suc (unat t + length ss)]"
proof (induction ss arbitrary: t)
  case (Cons s ss)
  have next_t: "unat (t + 1) = Suc (unat t)"
    using Cons.prems(2) by (subst unat_add_lem [THEN iffD1]) simp_all
  have "map snap_tick ss = [Suc (Suc (unat t))..<Suc (Suc (unat t) + length ss)]"
    using Cons.IH [of "t + 1"] Cons.prems by (simp add: next_t del: upt_Suc)
  then show ?case
    using Cons.prems(1) next_t
    by (simp add: upt_conv_Cons del: upt_Suc) (simp add: snap_tick_def)
qed simp

lemma published_ticks:
  assumes "delivery_inv cfg exs d" "length (dl_published d) < 2 ^ 64"
  shows "map snap_tick (dl_published d) = [1..<Suc (length (dl_published d))]"
proof -
  let ?lv = "loop_start (map new_channel exs)"
  obtain lv fxs where r: "run_loop cfg (dl_turns d) ?lv = (lv, fxs)" by fastforce
  have "well_numbered (lv_tick_id ?lv) (published fxs)" using run_loop_ok [OF r] by (simp add: step_ok_def)
  then have "well_numbered 0 (dl_published d)"
    using assms(1) by (simp add: delivery_inv_def undisturbed_def r) (simp add: loop_start_def)
  from well_numbered_ticks [OF this] assms(2) show ?thesis by (simp del: upt_Suc)
qed

lemma subseq_sorted_wrt: "subseq xs ys \<Longrightarrow> sorted_wrt P ys \<Longrightarrow> sorted_wrt P xs"
  by (induction rule: list_emb.induct) (auto dest: list_emb_set)

section \<open>Draining\<close>

text \<open>Thread \<open>i\<close> runs for at most \<open>n\<close> steps, while it can.\<close>

fun run_thread :: "nat \<Rightarrow> nat \<Rightarrow> 's delivery \<Rightarrow> 's delivery" where
  "run_thread 0 i d = d"
| "run_thread (Suc n) i d =
     (case thread_step i d of None \<Rightarrow> d | Some d' \<Rightarrow> run_thread n i d')"

lemma channel_set [simp]:
  "i < length (lv_senders (dl_loop d)) \<Longrightarrow> channel (set_channel i ch d) i = ch"
  "channel (set_thread i t d) j = channel d j"
  by (simp_all add: channel_def)

lemma run_leaving:
  assumes "i < length (dl_threads d)" "th_phase (dl_threads d ! i) = Leaving"
  shows "dl_threads (run_thread (Suc n) i d) ! i =
    (dl_threads d ! i)\<lparr> th_state := (ex_shutdown (th_exporter (dl_threads d ! i)) (fst (th_state (dl_threads d ! i))),
        snd (th_state (dl_threads d ! i))), th_phase := Ended \<rparr>"
proof -
  have stop: "run_thread m i e = e" if "th_phase (dl_threads e ! i) = Ended" for m and e :: "'a delivery"
    using that by (cases m) (simp_all add: thread_step_def)
  show ?thesis using assms by (simp add: thread_step_def Let_def stop)
qed

lemma run_looping:
  assumes "i < length (dl_threads d)" "i < length (lv_senders (dl_loop d))"
    "th_phase (dl_threads d ! i) = Looping" "ch_queue (channel d i) = q" "ch_senders (channel d i) = 0"
    "dispatch_loop (th_exporter (dl_threads d ! i)) q (th_state (dl_threads d ! i)) = (sb, slept, left)"
  shows "let t' = dl_threads (run_thread (length q + 2) i d) ! i
    in th_phase t' = Ended \<and> fst (th_state t') = ex_shutdown (th_exporter (dl_threads d ! i)) (fst sb) \<and>
       th_slept t' = th_slept (dl_threads d ! i) @ slept \<and>
       th_taken t' @ left = th_taken (dl_threads d ! i) @ q"
  using assms
proof (induction q arbitrary: d sb slept left)
  case Nil
  let ?d1 = "set_thread i ((dl_threads d ! i)\<lparr>th_phase := Leaving\<rparr>) (set_channel i (channel d i) d)"
  have "thread_step i d = Some ?d1"
    using Nil.prems by (simp add: thread_step_def receiver_recv_def mpsc_recv_def Let_def)
  then have "run_thread (length [] + 2) i d = run_thread (Suc 0) i ?d1" by simp
  then show ?case using run_leaving [of i ?d1 0] Nil.prems by (simp add: Let_def)
next
  case (Cons snap q)
  let ?t = "dl_threads d ! i"
  obtain sb1 slept1 exit where disp: "dispatch (th_exporter ?t) snap (th_state ?t) = (sb1, slept1, exit)"
    by (metis prod_cases3)
  let ?t1 = "?t\<lparr> th_state := sb1, th_taken := th_taken ?t @ [snap], th_slept := th_slept ?t @ slept1,
      th_phase := (if exit = Break then Leaving else Looping) \<rparr>"
  let ?d1 = "set_thread i ?t1 (set_channel i ((channel d i)\<lparr>ch_queue := q\<rparr>) d)"
  have step: "thread_step i d = Some ?d1"
    using Cons.prems disp by (simp add: thread_step_def receiver_recv_def mpsc_recv_def Let_def)
  then have run: "run_thread (length (snap # q) + 2) i d = run_thread (length q + 2) i ?d1" by simp
  show ?case
  proof (cases exit)
    case Break
    then have "sb = sb1" "slept = slept1" "left = q" using Cons.prems(6) disp by auto
    then show ?thesis
      unfolding run using run_leaving [of i ?d1 "Suc (length q)"] Cons.prems Break
      by (simp add: Let_def)
  next
    case Continue
    obtain sb2 slept2 where rest: "dispatch_loop (th_exporter ?t) q sb1 = (sb2, slept2, left)"
        "sb = sb2" "slept = slept1 @ slept2"
      using Cons.prems(6) disp Continue by (auto split: prod.splits)
    have "let t' = dl_threads (run_thread (length q + 2) i ?d1) ! i
      in th_phase t' = Ended \<and> fst (th_state t') = ex_shutdown (th_exporter (dl_threads ?d1 ! i)) (fst sb2) \<and>
         th_slept t' = th_slept (dl_threads ?d1 ! i) @ slept2 \<and>
         th_taken t' @ left = th_taken (dl_threads ?d1 ! i) @ q"
      by (rule Cons.IH) (use Cons.prems rest Continue in simp_all)
    then show ?thesis unfolding run using rest Cons.prems(1) by (simp add: Let_def)
  qed
qed

text \<open>The sequential thread leaves snapshots only after a permanent error.\<close>

lemma exporter_left:
  assumes "exporter_thread ex snaps s0 = (s, slept, left)"
  shows "left = [] \<or> is_permanent (last (outcomes ex snaps s0))"
proof -
  obtain sb slept' left' where
      run: "dispatch_loop ex snaps (s0, exporter_backoff.after 0) = (sb, slept', left')"
    by (metis prod_cases3)
  then have "left = drop (length (outcomes ex snaps s0)) snaps"
    using assms dispatch_loop_delays [OF run] by (cases sb) (simp add: exporter_thread_def)
  then show ?thesis using outcomes_shape [of ex snaps s0] by auto
qed

lemma thread_ok_view:
  assumes "thread_ok (ex, s0, depth) holders pub t ch"
  shows "subseq (th_taken t @ ch_queue ch) pub \<and> length (ch_queue ch) \<le> max 1 depth \<and>
    (case th_phase t of
       Looping \<Rightarrow> dispatch_loop ex (th_taken t) (s0, FIRST_BACKOFF) = (th_state t, th_slept t, []) \<and>
         (length pub \<le> max 1 depth \<longrightarrow> th_taken t @ ch_queue ch = pub)
     | Leaving \<Rightarrow> True
     | Ended \<Rightarrow> exporter_thread ex (th_taken t) s0 = (fst (th_state t), th_slept t, []))"
proof (cases "th_phase t")
  case Looping
  then show ?thesis
    using assms fed_loop [of ex s0 "th_taken t" _ _ Continue "[]"] by (auto simp: thread_ok_def)
next
  case Leaving
  then show ?thesis using assms by (auto simp: thread_ok_def)
next
  case Ended
  then show ?thesis using assms by (auto simp: thread_ok_def dest: fed_thread)
qed

lemma taken_ticks:
  assumes "delivery_inv cfg exs d" "length (dl_published d) < 2 ^ 64" "i < length exs"
  shows "sorted_wrt (<) (map snap_tick (th_taken (dl_threads d ! i)))"
proof -
  have "sorted_wrt (<) (map snap_tick (dl_published d))"
    using published_ticks [OF assms(1,2)] by (simp del: upt_Suc)
  moreover have "subseq (th_taken (dl_threads d ! i)) (dl_published d)"
    by (rule thread_ok_subseq [OF delivery_invD [OF assms(1,3)]])
  ultimately show ?thesis by (blast intro: subseq_sorted_wrt subseq_map)
qed

section \<open>Properties\<close>

text \<open>
  C6. Whatever the interleaving of the poller and the exporter threads, an exporter behaves as
  the sequential thread on a subsequence of the published snapshots, in their order and none
  twice: while it loops, its plugin's state, its backoff and its sleeps are those of the
  dispatch loop on what it has taken; once it has ended they are those of the whole thread. What it
  has not taken is queued, within the clamped depth, or was dropped; nothing is dropped while
  fewer snapshots than the depth have been published.
\<close>

theorem exporter_refines_thread:
  assumes "delivery_reach cfg (delivery_start exs) d" "i < length exs" "exs ! i = (ex, s0, depth)"
  shows "let t = dl_threads d ! i; queue = ch_queue (channel d i)
    in subseq (th_taken t @ queue) (dl_published d) \<and> length queue \<le> max 1 depth \<and>
       (case th_phase t of
          Looping \<Rightarrow> dispatch_loop ex (th_taken t) (s0, FIRST_BACKOFF) = (th_state t, th_slept t, []) \<and>
            (length (dl_published d) \<le> max 1 depth \<longrightarrow> th_taken t @ queue = dl_published d)
        | Leaving \<Rightarrow> True
        | Ended \<Rightarrow> exporter_thread ex (th_taken t) s0 = (fst (th_state t), th_slept t, []))"
proof -
  have ok: "thread_ok (ex, s0, depth) (dl_holders d) (dl_published d) (dl_threads d ! i) (channel d i)"
    using delivery_invD [OF delivery_inv_reach [OF assms(1)] assms(2)] assms(3) by simp
  show ?thesis
    using thread_ok_view [OF ok] by (simp add: Let_def)
qed

text \<open>A run: one exporter that counts its snapshots, one turn, and the thread's step.\<close>

definition counting_exporter :: "nat exporter" where
  "counting_exporter =
     \<lparr> ex_export = (\<lambda>_ n. (Returned (Ok ()), n + 1)), ex_map_metrics = (\<lambda>_ n. n), ex_shutdown = (\<lambda>n. n) \<rparr>"

definition quiet_world :: turn_world where
  "quiet_world =
     \<lparr> tw_tick_start = 0, tw_connect = True, tw_rank = (\<lambda>_. 0), tw_snapshot = Ok \<lparr> raw_descriptors = [] \<rparr>,
       tw_wall = 5, tw_mono = 7, tw_pulls = [], tw_pull_snapshot = Err ListFailed,
       tw_pull_wall = 0, tw_pull_mono = 0, tw_tick_end = 0 \<rparr>"

definition quiet_snapshot :: flow_stats_snapshot where
  "quiet_snapshot = decode_snapshot (\<lambda>_. 0) \<lparr> raw_descriptors = [] \<rparr> 1 5 7 0"

definition after_turn :: "nat delivery" where
  "after_turn = poller_turn default_poller_config quiet_world (delivery_start [(counting_exporter, 0, 2)])"

lemma after_turn_reach:
  "delivery_reach default_poller_config (delivery_start [(counting_exporter, 0, 2)]) after_turn"
  unfolding after_turn_def
  by (rule delivery_more [OF delivery_begin delivery_step.poll]) (simp add: delivery_start_def)

lemma after_turn_parts:
  "dl_published after_turn = [quiet_snapshot]" "length (dl_threads after_turn) = 1"
  "dl_threads after_turn ! 0 = new_thread (counting_exporter, 0, 2)"
  "ch_queue (channel after_turn 0) = [quiet_snapshot]" "ch_senders (channel after_turn 0) = 2"
  "length (lv_senders (dl_loop after_turn)) = 1"
  by (simp_all add: after_turn_def poller_turn_def turn_def connected_turn_def publish_def serve_pulls_def
      delivery_start_def loop_start_def quiet_world_def quiet_snapshot_def new_channel_def fan_out_def
      clone_sender_def snapshot_channel_def sync_channel_def mpsc_try_send_def channel_def Let_def)

theorem exporter_refines_thread_witness:
  "\<exists>d. thread_step 0 after_turn = Some d \<and> th_taken (dl_threads d ! 0) = [quiet_snapshot] \<and>
     dispatch_loop counting_exporter [quiet_snapshot] (0, FIRST_BACKOFF) =
       (th_state (dl_threads d ! 0), th_slept (dl_threads d ! 0), [])"
proof -
  obtain d where d: "thread_step 0 after_turn = Some d" "th_taken (dl_threads d ! 0) = [quiet_snapshot]"
      "th_phase (dl_threads d ! 0) = Looping"
    by (simp add: thread_step_def after_turn_parts new_thread_def receiver_recv_def mpsc_recv_def
        dispatch_def counting_exporter_def Let_def)
  have "delivery_reach default_poller_config (delivery_start [(counting_exporter, 0, 2)]) d"
    by (rule delivery_more [OF after_turn_reach delivery_step.thread [OF _ d(1)]])
      (simp add: after_turn_parts)
  from exporter_refines_thread [OF this, of 0 counting_exporter 0 2] d show ?thesis
    by (auto simp: Let_def)
qed

text \<open>
  C9. No exporter can disturb the poller: in every reachable state the snapshots published so far
  are those the same turns publish when there is no exporter at all. And below \<open>2^64\<close> ticks each
  exporter is given snapshots of strictly increasing tick numbers.
\<close>

theorem poller_undisturbed:
  assumes "delivery_reach cfg (delivery_start exs) d" "length (dl_published d) < 2 ^ 64"
  shows "dl_published d = published (snd (run_loop cfg (dl_turns d) (loop_start []))) \<and>
    (\<forall>i < length exs. sorted_wrt (<) (map snap_tick (th_taken (dl_threads d ! i))))"
proof -
  have inv: "delivery_inv cfg exs d" by (rule delivery_inv_reach [OF assms(1)])
  have "same_vars (loop_start (map new_channel exs)) (loop_start [])"
    by (simp add: same_vars_def loop_start_def)
  then have "dl_published d = published (snd (run_loop cfg (dl_turns d) (loop_start [])))"
    using inv run_loop_same by (simp add: delivery_inv_def undisturbed_def)
  moreover have "\<forall>i < length exs. sorted_wrt (<) (map snap_tick (th_taken (dl_threads d ! i)))"
    using taken_ticks [OF inv assms(2)] by blast
  ultimately show ?thesis by blast
qed

theorem poller_undisturbed_witness:
  "[quiet_snapshot] = published (snd (run_loop default_poller_config (dl_turns after_turn) (loop_start [])))"
  using poller_undisturbed [OF after_turn_reach, THEN conjunct1] by (simp add: after_turn_parts)

text \<open>
  C7. Once the poller and the frontend have let go of their senders, an exporter thread in its
  loop ends by itself within two steps more than its queue is long. It gives the plugin all
  that was queued, as the sequential thread would, and leaves snapshots behind only when the
  plugin refused one for good.
\<close>

theorem shutdown_drains:
  assumes "delivery_reach cfg (delivery_start exs) d" "i < length exs" "exs ! i = (ex, s0, depth)"
    "dl_holders d = 0" "th_phase (dl_threads d ! i) = Looping"
  shows "let pending = th_taken (dl_threads d ! i) @ ch_queue (channel d i);
      t = dl_threads (run_thread (length (ch_queue (channel d i)) + 2) i d) ! i
    in th_phase t = Ended \<and>
       (\<exists>left. exporter_thread ex pending s0 = (fst (th_state t), th_slept t, left) \<and>
          th_taken t @ left = pending \<and>
          (left = [] \<or> is_permanent (last (outcomes ex pending s0))))"
proof -
  let ?t = "dl_threads d ! i" and ?q = "ch_queue (channel d i)"
  have inv: "delivery_inv cfg exs d" by (rule delivery_inv_reach [OF assms(1)])
  have ok: "thread_ok (ex, s0, depth) 0 (dl_published d) ?t (channel d i)"
    using delivery_invD [OF inv assms(2)] assms(3,4) by simp
  then have fed: "fed ex s0 (th_taken ?t) (th_state ?t) (th_slept ?t) Continue"
    and ex: "th_exporter ?t = ex" and hung: "ch_senders (channel d i) = 0"
    using assms(5) by (auto simp: thread_ok_def)
  obtain sb slept left where run: "dispatch_loop ex ?q (th_state ?t) = (sb, slept, left)"
    by (metis prod_cases3)
  have whole: "exporter_thread ex (th_taken ?t @ ?q) s0 = (ex_shutdown ex (fst sb), th_slept ?t @ slept, left)"
    using fed_loop [OF fed, of ?q] run by (simp add: exporter_thread_def split: prod.splits)
  have cut: "left = [] \<or> is_permanent (last (outcomes ex (th_taken ?t @ ?q) s0))"
    using exporter_left [of ex "th_taken ?t @ ?q" s0] whole by simp
  have bounds: "i < length (dl_threads d)" "i < length (lv_senders (dl_loop d))"
    using inv assms(2) by (simp_all add: delivery_inv_def)
  note final = run_looping [OF bounds assms(5) refl hung, unfolded ex, OF run]
  show ?thesis
    using final cut by (simp only: Let_def whole) blast
qed

definition let_go_twice :: "nat delivery" where
  "let_go_twice = release_senders (release_senders after_turn)"

lemma let_go_twice_reach:
  "delivery_reach default_poller_config (delivery_start [(counting_exporter, 0, 2)]) let_go_twice"
proof -
  have two: "dl_holders after_turn = 2"
    by (simp add: after_turn_def poller_turn_def delivery_start_def split: prod.splits)
  have one: "delivery_reach default_poller_config (delivery_start [(counting_exporter, 0, 2)])
      (release_senders after_turn)"
    by (rule delivery_more [OF after_turn_reach delivery_step.let_go]) (simp add: two)
  show ?thesis
    unfolding let_go_twice_def
    by (rule delivery_more [OF one delivery_step.let_go]) (simp add: two release_senders_def)
qed

lemma let_go_twice_parts:
  "dl_holders let_go_twice = 0" "dl_threads let_go_twice ! 0 = new_thread (counting_exporter, 0, 2)"
  "ch_queue (channel let_go_twice 0) = [quiet_snapshot]"
proof -
  have "dl_holders after_turn = 2"
    by (simp add: after_turn_def poller_turn_def delivery_start_def split: prod.splits)
  then show "dl_holders let_go_twice = 0" by (simp add: let_go_twice_def release_senders_def)
  show "dl_threads let_go_twice ! 0 = new_thread (counting_exporter, 0, 2)"
    by (simp add: let_go_twice_def release_senders_def after_turn_parts)
  show "ch_queue (channel let_go_twice 0) = [quiet_snapshot]"
    using after_turn_parts
    by (simp add: let_go_twice_def release_senders_def channel_def drop_sender_def)
qed

theorem shutdown_drains_witness:
  "th_phase (dl_threads (run_thread 3 0 let_go_twice) ! 0) = Ended \<and>
   th_taken (dl_threads (run_thread 3 0 let_go_twice) ! 0) = [quiet_snapshot]"
proof -
  note drained = shutdown_drains [OF let_go_twice_reach, of 0 counting_exporter 0 2]
  obtain left where left: "th_phase (dl_threads (run_thread 3 0 let_go_twice) ! 0) = Ended"
      "th_taken (dl_threads (run_thread 3 0 let_go_twice) ! 0) @ left = [quiet_snapshot]"
      "left = [] \<or> is_permanent (last (outcomes counting_exporter [quiet_snapshot] 0))"
    using drained
    by (auto simp: let_go_twice_parts new_thread_def Let_def eval_nat_numeral simp del: run_thread.simps)
  moreover have "\<not> is_permanent (last (outcomes counting_exporter [quiet_snapshot] 0))"
    by (simp add: counting_exporter_def)
  ultimately show ?thesis by auto
qed

end
