(* ===== verification/Started.thy ===== *)
theory Started
  imports Lifecycle Delivery
begin

text \<open>
  From a configuration file to the exporters at work: the threads and channels \<open>Frontend::start\<close>
  sets up are the start of the interleaved system of \<open>Delivery\<close>, so what holds there of every
  exporter holds of every configured entry. How a plugin's calls turn out, deadlines included,
  is left open. The snapshot channel of the control server, one more of the poller's senders,
  is followed in \<open>Pipeline\<close>.
\<close>

definition plugged :: "('s running_exporter \<Rightarrow> 's exporter) \<Rightarrow> 's running_exporter \<Rightarrow> 's exporter \<times> 's \<times> nat" where
  "plugged plug x = (plug x, re_instance x, ch_capacity (re_queue x))"

definition running_start ::
    "('s running_exporter \<Rightarrow> 's exporter) \<Rightarrow> ('s, 'b) frontend \<Rightarrow> 's delivery" where
  "running_start plug fe = delivery_start (map (plugged plug) (fe_exporters fe))"

lemma build_exporters_queue:
  "build_exporters w es = Ok xs \<Longrightarrow> x \<in> set xs \<Longrightarrow> \<exists>n. re_queue x = snapshot_channel n"
proof (induction es arbitrary: xs)
  case (Cons e es)
  then show ?case by (auto simp: res_simps Let_def split: option.splits) blast
qed simp

lemma started_channel:
  assumes "start w path = Ok fe" "x \<in> set (fe_exporters fe)"
  shows "new_channel (plugged plug x) = re_queue x"
proof -
  obtain c xs where "build_exporters w (exporters_of c) = Ok xs" "fe = assemble w path c xs"
    using assms(1) by (auto simp: start_Ok)
  then obtain y n where y: "re_queue y = snapshot_channel n" "x = y\<lparr>re_queue := clone_sender (re_queue y)\<rparr>"
    using assms(2) build_exporters_queue by (fastforce simp: assemble_def Let_def)
  then show ?thesis
    by (simp add: new_channel_def plugged_def snapshot_channel_def clone_sender_def sync_channel_def)
qed

text \<open>The model's channels at the start are the ones the frontend holds.\<close>

lemma running_start_channels:
  "start w path = Ok fe \<Longrightarrow>
   lv_senders (dl_loop (running_start plug fe)) = map re_queue (fe_exporters fe)"
  by (simp add: running_start_def delivery_start_def loop_start_def started_channel)

lemma started_from:
  "start w path = Ok fe \<Longrightarrow>
   \<exists>c xs. valid_config_at w path c \<and> build_exporters w (exporters_of c) = Ok xs \<and> fe = assemble w path c xs"
  by (auto simp: start_Ok valid_config_at_def)

lemma started_entries:
  assumes "host_ready env w" "valid_config_at w path c" "build_exporters w (exporters_of c) = Ok xs"
    "fe = assemble w path c xs"
  shows "list_all2 (runs_entry env) (exporters_of c) (fe_exporters fe)"
    and "list_all exporter_ok (exporters_of c)"
proof -
  show ok: "list_all exporter_ok (exporters_of c)"
    using assms(2) by (auto simp: valid_config_at_def config_ok_def exporters_of_def split: option.splits)
  have "list_all values_render (exporters_of c)"
    using assms(1,2) by (auto simp: host_ready_def valid_config_at_def)
  then obtain ys where "build_exporters w (exporters_of c) = Ok ys" "list_all2 (runs_entry env) (exporters_of c) ys"
    using build_exporters_total [OF assms(1) ok] by blast
  then show "list_all2 (runs_entry env) (exporters_of c) (fe_exporters fe)"
    using assms(3,4) by (simp add: assemble_runs)
qed

text \<open>
  C15. A frontend started from a file serves every configured exporter: the configuration at the
  path is valid, and in every state its threads reach, the plugin made from entry \<open>i\<close> has been
  given a subsequence of the published snapshots with increasing ticks, its queue is within the
  configured depth, none is lost while fewer than that depth have been published, and when its
  thread has ended the plugin's state is the one the sequential thread leaves it in.
\<close>

theorem started_frontend_delivers:
  assumes "host_ready env w" "start w path = Ok fe" "delivery_reach cfg (running_start plug fe) d"
    "length (dl_published d) < 2 ^ 64"
  shows "\<exists>c. valid_config_at w path c \<and> length (dl_threads d) = length (exporters_of c) \<and>
    (\<forall>i < length (exporters_of c).
       let e = exporters_of c ! i; t = dl_threads d ! i; queue = ch_queue (channel d i);
           ex = plug (fe_exporters fe ! i)
       in \<exists>s0. otlp_new env (entry_to_exporter_config e) = Ok s0 \<and>
          subseq (th_taken t @ queue) (dl_published d) \<and>
          sorted_wrt (<) (map snap_tick (th_taken t)) \<and>
          length queue \<le> ee_queue_depth e \<and>
          (th_phase t = Looping \<longrightarrow> length (dl_published d) \<le> ee_queue_depth e \<longrightarrow>
             th_taken t @ queue = dl_published d) \<and>
          (th_phase t = Ended \<longrightarrow>
             exporter_thread ex (th_taken t) s0 = (fst (th_state t), th_slept t, [])))"
proof -
  obtain c xs where c: "valid_config_at w path c" "build_exporters w (exporters_of c) = Ok xs"
      "fe = assemble w path c xs"
    using started_from [OF assms(2)] by blast
  note runs = started_entries(1) [OF assms(1) c] and valid = started_entries(2) [OF assms(1) c]
  have len: "length (fe_exporters fe) = length (exporters_of c)"
    using list_all2_lengthD [OF runs] by simp
  have inv: "delivery_inv cfg (map (plugged plug) (fe_exporters fe)) d"
    using assms(3) by (simp add: running_start_def delivery_inv_reach)
  have "let e = exporters_of c ! i; t = dl_threads d ! i; queue = ch_queue (channel d i);
           ex = plug (fe_exporters fe ! i)
       in \<exists>s0. otlp_new env (entry_to_exporter_config e) = Ok s0 \<and>
          subseq (th_taken t @ queue) (dl_published d) \<and>
          sorted_wrt (<) (map snap_tick (th_taken t)) \<and>
          length queue \<le> ee_queue_depth e \<and>
          (th_phase t = Looping \<longrightarrow> length (dl_published d) \<le> ee_queue_depth e \<longrightarrow>
             th_taken t @ queue = dl_published d) \<and>
          (th_phase t = Ended \<longrightarrow>
             exporter_thread ex (th_taken t) s0 = (fst (th_state t), th_slept t, []))"
    if i: "i < length (exporters_of c)" for i
  proof -
    let ?x = "fe_exporters fe ! i"
    have run: "runs_entry env (exporters_of c ! i) ?x"
      using runs i by (simp add: list_all2_conv_all_nth)
    have ok: "thread_ok (plug ?x, re_instance ?x, ch_capacity (re_queue ?x)) (dl_holders d)
        (dl_published d) (dl_threads d ! i) (channel d i)"
      using delivery_invD [OF inv, of i] i len by (simp add: plugged_def)
    have "0 < ee_queue_depth (exporters_of c ! i)" "ch_capacity (re_queue ?x) = ee_queue_depth (exporters_of c ! i)"
      using run valid i by (auto simp: runs_entry_def exporter_ok_def list_all_length)
    then show ?thesis
      using run taken_ticks [OF inv assms(4), of i] i len thread_ok_view [OF ok]
      by (cases "th_phase (dl_threads d ! i)") (simp_all add: Let_def runs_entry_def)
  qed
  then show ?thesis using c(1) inv len by (auto simp: delivery_inv_def)
qed

definition idle_plugin :: "otlp_exporter running_exporter \<Rightarrow> otlp_exporter exporter" where
  "idle_plugin x =
     \<lparr> ex_export = (\<lambda>_ s. (Returned (Ok ()), s)), ex_map_metrics = map_metrics, ex_shutdown = (\<lambda>s. s) \<rparr>"

theorem started_frontend_delivers_witness:
  "\<exists>fe. start sample_world ''c'' = Ok fe \<and> length (dl_threads (running_start idle_plugin fe)) = 1"
proof -
  have "list_all exporter_ok (exporters_of sample_config)" "list_all values_render (exporters_of sample_config)"
    using sample_host_ready sample_valid
    by (auto simp: host_ready_def valid_config_at_def config_ok_def exporters_of_def split: option.splits)
  then obtain xs where "build_exporters sample_world (exporters_of sample_config) = Ok xs"
    using build_exporters_total [OF sample_host_ready] by blast
  then have st: "start sample_world ''c'' = Ok (assemble sample_world ''c'' sample_config xs)"
    by (rule start_OkI [OF sample_valid sample_answers])
  let ?fe = "assemble sample_world ''c'' sample_config xs"
  obtain c where "valid_config_at sample_world ''c'' c"
      "length (dl_threads (running_start idle_plugin ?fe)) = length (exporters_of c)"
    using started_frontend_delivers [OF sample_host_ready st delivery_begin, where plug = idle_plugin]
    by (auto simp: running_start_def delivery_start_def)
  moreover from this have "c = sample_config" by (intro sample_only)
  ultimately show ?thesis using st by (simp add: exporters_of_def sample_config_def)
qed

end
