(* ===== verification/Threads.thy ===== *)
theory Threads
  imports Delivery VapiClient
begin

text \<open>
  What surrounds the two kinds of worker threads: the poller's clocks, its connection attempt,
  its loop in a build without VAPI and its handle (\<open>poller.rs\<close>), and the spawning and joining of
  an exporter thread (\<open>exporter.rs\<close>). A join returns when the thread has ended; \<open>None\<close> is a
  join that waits for ever.
\<close>

section \<open>Clocks\<close>

text \<open>What \<open>clock_gettime\<close> returns and leaves in the structure.\<close>

record timespec =
  ts_sec :: "64 word"
  ts_nsec :: "64 word"

definition monotonic_ns :: "int \<times> timespec \<Rightarrow> u64" where
  "monotonic_ns answer =
     (case answer of (ret, ts) \<Rightarrow> if ret \<noteq> 0 then 0 else ts_sec ts * 1000000000 + ts_nsec ts)"

definition wall_clock_ns :: "int \<times> timespec \<Rightarrow> u64" where
  "wall_clock_ns answer =
     (case answer of (ret, ts) \<Rightarrow> if ret \<noteq> 0 then 0 else ts_sec ts * 1000000000 + ts_nsec ts)"

text \<open>A time of less than 584 years, in nanoseconds.\<close>

definition valid_time :: "timespec \<Rightarrow> bool" where
  "valid_time ts \<longleftrightarrow> unat (ts_sec ts) < 18446744073 \<and> unat (ts_nsec ts) < 1000000000"

definition time_ns :: "timespec \<Rightarrow> nat" where
  "time_ns ts = unat (ts_sec ts) * 1000000000 + unat (ts_nsec ts)"

lemma unat_time:
  assumes "valid_time ts"
  shows "unat (ts_sec ts * 1000000000 + ts_nsec ts) = time_ns ts"
proof -
  have bound: "time_ns ts < 2 ^ 64"
    using assms by (simp add: valid_time_def time_ns_def)
  have "unat (ts_sec ts * 1000000000) = unat (ts_sec ts) * 1000000000"
    using bound by (subst unat_mult_lem [THEN iffD1]) (simp_all add: time_ns_def)
  then show ?thesis
    using bound by (subst unat_add_lem [THEN iffD1]) (simp_all add: time_ns_def)
qed

section \<open>The poller thread\<close>

definition try_connect_vapi :: "(string \<Rightarrow> 'h option) \<Rightarrow> 'h option" where
  "try_connect_vapi ffi_connect =
     (case connect_handle ffi_connect ''infmon-frontend'' of Ok c \<Rightarrow> Some c | Err _ \<Rightarrow> None)"

text \<open>
  The loop without VAPI: a sleep of a second per turn, each interrupted by its own looks at the
  flag; the turns are those taken before the flag was seen set at the head of the loop.
\<close>

definition run_loop_stub :: "(nat \<Rightarrow> bool) list \<Rightarrow> duration list" where
  "run_loop_stub turns = map (sleep_interruptible (from_secs 1)) turns"

record poller_handle =
  ph_join :: bool
  ph_stop :: bool

text \<open>\<open>None\<close> is the panic when the thread cannot be started.\<close>

definition spawn_poller :: "string + unit \<Rightarrow> poller_handle option" where
  "spawn_poller thread =
     (case thread of Ok _ \<Rightarrow> Some \<lparr> ph_join = True, ph_stop = False \<rparr> | Err _ \<Rightarrow> None)"

text \<open>The flag is set and the thread joined; the thread ends because it sees the flag.\<close>

definition poller_shutdown :: "poller_handle \<Rightarrow> poller_handle" where
  "poller_shutdown h = h\<lparr> ph_stop := True, ph_join := False \<rparr>"

definition poller_handle_stop :: "poller_handle \<Rightarrow> poller_handle" where
  "poller_handle_stop h = poller_shutdown (poller_shutdown h)"

section \<open>Exporter threads\<close>

record exporter_handle =
  eh_join :: bool
  eh_name :: string

definition spawn_exporter_thread :: "string + unit \<Rightarrow> string \<Rightarrow> string + exporter_handle" where
  "spawn_exporter_thread thread exporter_name =
     (case thread of
        Err e \<Rightarrow> Err e
      | Ok _ \<Rightarrow> Ok \<lparr> eh_join = True, eh_name = ''exporter-'' @ exporter_name \<rparr>)"

text \<open>
  The thread's body: without a runtime it returns at once, and neither takes a snapshot nor
  shuts the plugin down.
\<close>

definition exporter_body ::
    "string + unit \<Rightarrow> 's exporter \<Rightarrow> flow_stats_snapshot list \<Rightarrow> 's \<Rightarrow>
     's \<times> duration list \<times> flow_stats_snapshot list" where
  "exporter_body runtime ex snaps s =
     (case runtime of Err e \<Rightarrow> (s, [], snaps) | Ok _ \<Rightarrow> exporter_thread ex snaps s)"

text \<open>Joining, and what dropping the handle does, given whether the thread ends.\<close>

definition handle_join :: "bool \<Rightarrow> exporter_handle \<Rightarrow> exporter_handle option" where
  "handle_join ends h =
     (if \<not> eh_join h then Some h else if ends then Some (h\<lparr>eh_join := False\<rparr>) else None)"

definition drop_handle :: "bool \<Rightarrow> exporter_handle \<Rightarrow> exporter_handle option" where
  "drop_handle ends h =
     (if \<not> eh_join h then Some h else if ends then Some (h\<lparr>eh_join := False\<rparr>) else None)"

section \<open>Properties\<close>

text \<open>
  Clock readings do not wrap for 584 years, and the interval of every snapshot after the first
  is the time between the two readings in nanoseconds, never less than zero; when either reading
  failed, and reads as zero, the interval is zero rather than garbage.
\<close>

theorem interval_exact:
  assumes "valid_time before" "valid_time now" "t \<noteq> 1"
  shows "unat (monotonic_ns (ret, now)) = (if ret = 0 then time_ns now else 0) \<and>
    unat (sn_interval_ns (decode_snapshot rank raw t wall
        (monotonic_ns (ret, now)) (monotonic_ns (ret', before)))) =
      (if ret = 0 \<and> ret' = 0 \<and> time_ns before \<noteq> 0 then time_ns now - time_ns before else 0)"
proof -
  have zero: "ts_sec before * 1000000000 + ts_nsec before = 0 \<longleftrightarrow> time_ns before = 0"
    using unat_time [OF assms(1)] by (simp flip: unat_eq_zero)
  show ?thesis
    using assms(3) zero
    by (auto simp: monotonic_ns_def decode_snapshot_def unat_sat_sub unat_time assms)
qed

theorem interval_exact_witness:
  "unat (sn_interval_ns (decode_snapshot (\<lambda>_. 0) \<lparr> raw_descriptors = [] \<rparr> 2 0
     (monotonic_ns (0, \<lparr> ts_sec = 11, ts_nsec = 5 \<rparr>))
     (monotonic_ns (0, \<lparr> ts_sec = 10, ts_nsec = 999999999 \<rparr>)))) = 6"
  using interval_exact [of "\<lparr> ts_sec = 10, ts_nsec = 999999999 \<rparr>" "\<lparr> ts_sec = 11, ts_nsec = 5 \<rparr>" 2 0]
  by (simp add: valid_time_def time_ns_def)

end
