(* ===== verification/Logging.thy ===== *)
theory Logging
  imports UnixPath Validate
begin

text \<open>
  The set-up of logging, \<open>src/frontend/src/logging.rs\<close>: the filter, which \<open>RUST_LOG\<close> overrides,
  the destination with the split of the log file's path into directory and name, and the
  installation of the subscriber. The filter type, the syslog connection, the rolling file
  appender and the global subscriber belong to the tracing crates and are arguments.
\<close>

section \<open>Subscribers\<close>

datatype log_writer = Stderr | SyslogWriter string | RollingFile rotation string string

record 'f subscriber =
  su_filter :: 'f
  su_writer :: log_writer
  su_ansi :: bool

text \<open>
  What the crates answer: the filter of a valid \<open>RUST_LOG\<close>, the filter of a level's name,
  whether syslog can be opened, whether a rolling appender can be created for a rotation, a
  directory and a file name, and whether the global subscriber could be set. The appender's
  constructors return no \<open>Result\<close>: when the file cannot be created they panic.
\<close>

record 'f log_world =
  gw_env_filter :: "'f option"
  gw_new_filter :: "string \<Rightarrow> 'f"
  gw_syslog :: bool
  gw_appender :: "rotation \<Rightarrow> string \<Rightarrow> string \<Rightarrow> string + unit"
  gw_set_global :: "string + unit"

definition filter_or :: "'f log_world \<Rightarrow> string \<Rightarrow> 'f" where
  "filter_or w level =
     (case gw_env_filter w of Some f \<Rightarrow> f | None \<Rightarrow> gw_new_filter w level)"

definition init_bootstrap :: "'f log_world \<Rightarrow> 'f subscriber" where
  "init_bootstrap w = \<lparr> su_filter = filter_or w ''info'', su_writer = Stderr, su_ansi = False \<rparr>"

fun level_text :: "log_level \<Rightarrow> string" where
  "level_text Trace = ''trace''"
| "level_text Debug = ''debug''"
| "level_text Info = ''info''"
| "level_text Warn = ''warn''"
| "level_text Error = ''error''"

definition log_directory :: "string \<Rightarrow> string" where
  "log_directory path =
     (case path_parent path of None \<Rightarrow> ''.'' | Some d \<Rightarrow> if d = [] then ''.'' else d)"

definition log_filename :: "string \<Rightarrow> string" where
  "log_filename path = (case path_file_name path of None \<Rightarrow> ''infmon.log'' | Some n \<Rightarrow> n)"

text \<open>The result, with the number of guards the caller holds, and the subscriber that got installed.\<close>

datatype log_result = Ready nat | Failed string | Panicked string

definition install_global ::
    "'f log_world \<Rightarrow> 'f subscriber \<Rightarrow> nat \<Rightarrow> log_result \<times> 'f subscriber option" where
  "install_global w subscriber guards =
     (case gw_set_global w of
        Err e \<Rightarrow> (Failed (''failed to set global subscriber: '' @ e), None)
      | Ok _ \<Rightarrow> (Ready guards, Some subscriber))"

definition init_logging ::
    "'f log_world \<Rightarrow> logging_config \<Rightarrow> log_result \<times> 'f subscriber option" where
  "init_logging w config =
     (let flt = filter_or w (level_text (lc_level config))
      in case lc_destination config of
           Syslog \<Rightarrow>
             if \<not> gw_syslog w then (Failed ''failed to initialize syslog'', None)
             else install_global w
               \<lparr> su_filter = flt, su_writer = SyslogWriter ''infmon'', su_ansi = False \<rparr> 0
         | LogFile \<Rightarrow>
             (case lc_file config of
                None \<Rightarrow>
                  (Failed (''logging destination is '' @ quoted ''file'' @ '' but no file config provided''), None)
              | Some file_config \<Rightarrow>
                  (let dir = log_directory (lf_path file_config);
                       filename = log_filename (lf_path file_config)
                   in case gw_appender w (lf_rotation file_config) dir filename of
                        Err e \<Rightarrow> (Panicked e, None)
                      | Ok _ \<Rightarrow> install_global w
                          \<lparr> su_filter = flt,
                            su_writer = RollingFile (lf_rotation file_config) dir filename,
                            su_ansi = False \<rparr> 1)))"

section \<open>Where the log file is\<close>

lemma components_simps [simp]: "components [] = []" "components ''.'' = [CurDir]"
  by (simp_all add: components_def leading_def kept_pieces_def kept_def)

definition places :: "string \<Rightarrow> component list" where
  "places p = filter (\<lambda>c. c \<noteq> CurDir) (components p)"

lemma log_directory_places:
  assumes "components path \<noteq> []" "last (components path) = Normal n"
  shows "places (log_directory path) @ [Normal n] = places path"
proof -
  have "path_parent path \<noteq> None" using assms by (auto simp: path_parent_None)
  then obtain d where d: "path_parent path = Some d" by auto
  have "components path = components d @ [Normal n]"
    unfolding path_parent_components [OF d] using assms append_butlast_last_id by metis
  moreover have "places (log_directory path) = places d"
    using d by (simp add: log_directory_def places_def)
  ultimately show ?thesis by (simp add: places_def)
qed

lemma log_filename_Normal:
  "components path \<noteq> [] \<Longrightarrow> last (components path) = Normal n \<Longrightarrow> log_filename path = n"
  by (simp add: log_filename_def path_file_name_last)

text \<open>
  Where the file appender writes: a directory and a name that lead to the configured path when
  that ends in an ordinary name, and the fixed name otherwise.
\<close>

definition leads_to :: "string \<Rightarrow> string \<Rightarrow> string \<Rightarrow> bool" where
  "leads_to dir name path \<longleftrightarrow> dir \<noteq> [] \<and>
     (case rev (components path) of
        Normal n # _ \<Rightarrow> name = n \<and> places dir @ [Normal n] = places path
      | _ \<Rightarrow> name = ''infmon.log'')"

lemma log_file_place: "leads_to (log_directory path) (log_filename path) path"
proof -
  have dir: "log_directory path \<noteq> []" by (simp add: log_directory_def split: option.splits)
  show ?thesis
  proof (cases "rev (components path)")
    case Nil
    then show ?thesis using dir by (simp add: leads_to_def log_filename_def path_file_name_last)
  next
    case (Cons c cs)
    then have "components path \<noteq> []" "last (components path) = c" by (auto simp: rev_eq_Cons_iff)
    then show ?thesis
      using dir log_directory_places log_filename_Normal
      by (cases c) (simp_all add: leads_to_def Cons log_filename_def path_file_name_last)
  qed
qed

text \<open>What the configured destination needs: syslog, or a file appender at the file's place.\<close>

definition opened :: "'f log_world \<Rightarrow> logging_config \<Rightarrow> log_writer \<Rightarrow> bool" where
  "opened w config writer \<longleftrightarrow>
     (case writer of
        Stderr \<Rightarrow> False
      | SyslogWriter name \<Rightarrow> lc_destination config = Syslog \<and> name = ''infmon'' \<and> gw_syslog w
      | RollingFile rotation dir name \<Rightarrow>
          (\<exists>fc. lc_destination config = LogFile \<and> lc_file config = Some fc \<and> rotation = lf_rotation fc \<and>
             leads_to dir name (lf_path fc) \<and> gw_appender w rotation dir name = Ok ()))"

section \<open>Properties\<close>

text \<open>
  C30. How the set-up of logging ends for a validated configuration. A subscriber is installed
  exactly when it succeeds: it then has the filter of a valid \<open>RUST_LOG\<close>, and else that of the
  configured level, writes without colours to an opened syslog or to an appender that was
  created at the place of the configured file, and the caller holds one guard for a file and
  none for syslog. It returns an error exactly when syslog cannot be opened, or when the
  destination is open but another global subscriber is installed. When the appender cannot
  create the file it does not return an error: it panics.
\<close>

theorem init_logging_exact:
  assumes "logging_ok config"
  shows "case init_logging w config of (res, installed) \<Rightarrow>
     (case res of
        Ready n \<Rightarrow> gw_set_global w = Ok () \<and> n = (if lc_destination config = Syslog then 0 else 1) \<and>
          (\<exists>s. installed = Some s \<and> opened w config (su_writer s) \<and> \<not> su_ansi s \<and>
             (if gw_env_filter w = None then su_filter s = gw_new_filter w (level_text (lc_level config))
              else Some (su_filter s) = gw_env_filter w))
      | Failed e \<Rightarrow> installed = None \<and>
          (if lc_destination config = Syslog \<and> \<not> gw_syslog w then e = ''failed to initialize syslog''
           else (\<exists>writer. opened w config writer) \<and>
             (\<exists>m. gw_set_global w = Err m \<and> e = ''failed to set global subscriber: '' @ m))
      | Panicked e \<Rightarrow> installed = None \<and>
          (\<exists>fc dir name. lc_destination config = LogFile \<and> lc_file config = Some fc \<and>
             leads_to dir name (lf_path fc) \<and> gw_appender w (lf_rotation fc) dir name = Err e))"
proof (cases "lc_destination config")
  case Syslog
  have "opened w config (SyslogWriter ''infmon'')" if "gw_syslog w"
    using that Syslog by (simp add: opened_def)
  with Syslog show ?thesis
    by (auto simp: init_logging_def install_global_def filter_or_def Let_def
        split: option.split sum.split)
next
  case LogFile
  then obtain fc where fc: "lc_file config = Some fc" using assms by (auto simp: logging_ok_def)
  let ?dir = "log_directory (lf_path fc)" and ?name = "log_filename (lf_path fc)"
  note place = log_file_place [of "lf_path fc"]
  have ready: "opened w config (RollingFile (lf_rotation fc) ?dir ?name)"
    if "gw_appender w (lf_rotation fc) ?dir ?name = Ok ()"
    using that place LogFile fc by (simp add: opened_def)
  show ?thesis
  proof (cases "gw_appender w (lf_rotation fc) ?dir ?name")
    case (Inl e)
    then show ?thesis using LogFile fc place by (auto simp: init_logging_def Let_def)
  next
    case (Inr u)
    then have "opened w config (RollingFile (lf_rotation fc) ?dir ?name)" using ready by simp
    then show ?thesis
      using LogFile fc Inr
      by (auto simp: init_logging_def install_global_def filter_or_def Let_def split: option.split sum.split)
  qed
qed

text \<open>A host without syslog that can create the file \<open>frontend.log\<close> of one directory only.\<close>

definition sample_log_world :: "string log_world" where
  "sample_log_world =
     \<lparr> gw_env_filter = None, gw_new_filter = (\<lambda>l. l), gw_syslog = False,
       gw_appender = (\<lambda>_ dir name. if name = ''frontend.log'' then Ok () else Err ''denied''),
       gw_set_global = Ok () \<rparr>"

theorem init_logging_exact_witness:
  "(case init_logging sample_log_world \<lparr> lc_level = Warn, lc_destination = LogFile,
        lc_file = Some \<lparr> lf_path = ''/var/log//infmon/./frontend.log'', lf_rotation = Daily \<rparr> \<rparr> of
      (res, installed) \<Rightarrow> res = Ready 1 \<and>
        (\<exists>s dir. installed = Some s \<and> su_filter s = ''warn'' \<and>
           su_writer s = RollingFile Daily dir ''frontend.log'' \<and>
           places dir = [RootDir, Normal ''var'', Normal ''log'', Normal ''infmon'']))"
proof -
  let ?p = "''/var/log//infmon/./frontend.log''"
  let ?c = "\<lparr> lc_level = Warn, lc_destination = LogFile,
    lc_file = Some \<lparr> lf_path = ?p, lf_rotation = Daily \<rparr> \<rparr>"
  have cs: "components ?p = [RootDir, Normal ''var'', Normal ''log'', Normal ''infmon'', Normal ''frontend.log'']"
    by (simp add: components_def leading_def kept_pieces_def kept_def named_def)
  obtain res installed where r: "init_logging sample_log_world ?c = (res, installed)" by fastforce
  have leads: "leads_to dir name ?p \<longleftrightarrow> dir \<noteq> [] \<and> name = ''frontend.log'' \<and>
      places dir = [RootDir, Normal ''var'', Normal ''log'', Normal ''infmon'']" for dir name
    by (auto simp: leads_to_def cs places_def)
  have "logging_ok ?c" by (simp add: logging_ok_def)
  from init_logging_exact [OF this, of sample_log_world] show ?thesis
    unfolding r prod.case
    by (cases res; cases installed)
      (auto simp: sample_log_world_def opened_def leads split: log_writer.splits)
qed

end
