(* ===== verification/AttrTypes.thy ===== *)
theory AttrTypes
  imports OtlpAttrs
begin

text \<open>
  The types of exported attributes. A key the decoder accepts (\<open>decode.rs\<close>) turns into
  attributes (\<open>otlp.rs\<close>) whose key, kind and range are fixed by the field alone, and no
  address is ever long enough to be cut.
\<close>

section \<open>The type of an attribute\<close>

datatype attr_type = Text | Number nat

fun attr_type_of :: "field_id \<Rightarrow> attr_type" where
  "attr_type_of IdSrcIp = Text"
| "attr_type_of IdDstIp = Text"
| "attr_type_of IdMirrorSrcIp = Text"
| "attr_type_of IdIpProto = Number 8"
| "attr_type_of IdDscp = Number 8"
| "attr_type_of IdSrcPort = Number 16"
| "attr_type_of IdDstPort = Number 16"

fun has_attr_type :: "any_value \<Rightarrow> attr_type \<Rightarrow> bool" where
  "has_attr_type (StringValue s) Text \<longleftrightarrow> s \<noteq> [] \<and> length s \<le> 42"
| "has_attr_type (IntValue i) (Number bits) \<longleftrightarrow> 0 \<le> i \<and> i < 2 ^ bits"
| "has_attr_type _ _ \<longleftrightarrow> False"

text \<open>The value a field's attribute carries when it is not cut.\<close>

fun plain_value :: "field_value \<Rightarrow> any_value" where
  "plain_value (VIp a) = StringValue (render_ip a)"
| "plain_value (VProto p) = IntValue (uint p)"
| "plain_value (VDscp d) = IntValue (uint d)"
| "plain_value (VPort p) = IntValue (uint p)"

section \<open>The length of address texts\<close>

lemma byte_bound: "unat (b :: u8) < 256"
proof -
  have "unat b < 2 ^ LENGTH(8)" by (rule unsigned_less)
  then show ?thesis by simp
qed

lemma length_show_byte: "n < 256 \<Longrightarrow> 0 < length (show_nat n) \<and> length (show_nat n) \<le> 3"
  by (simp add: show_nat.simps)

lemma length_show_hex: "n < 65536 \<Longrightarrow> 0 < length (show_hex n) \<and> length (show_hex n) \<le> 4"
  by (simp add: show_hex.simps)

lemma length_join_le:
  "(\<forall>s \<in> set ss. length s \<le> n) \<Longrightarrow> length sep = 1 \<Longrightarrow> length (join sep ss) \<le> (n + 1) * length ss"
proof (induction sep ss rule: join.induct)
  case (3 sep s t ts)
  then show ?case by force
qed auto

lemma join_nonempty: "ss \<noteq> [] \<Longrightarrow> \<forall>s \<in> set ss. s \<noteq> [] \<Longrightarrow> join sep ss \<noteq> []"
  by (induction sep ss rule: join.induct) auto

lemma segments_bound: "s \<in> set (segments os) \<Longrightarrow> s < 65536"
proof (induction os rule: segments.induct)
  case (1 a b rest)
  have "unat a < 256" "unat b < 256" using byte_bound by blast+
  then show ?case using 1 by auto
qed auto

lemma length_segments: "2 * length (segments os) \<le> length os"
  by (induction os rule: segments.induct) auto

lemma show_ipv4_length:
  assumes "length os = 4"
  shows "show_ipv4 os \<noteq> []" "length (show_ipv4 os) \<le> 16"
proof -
  have byte: "0 < length (show_nat (unat b)) \<and> length (show_nat (unat b)) \<le> 3" for b :: u8
    by (rule length_show_byte [OF byte_bound])
  have "length (show_ipv4 os) \<le> (3 + 1) * length (map (show_nat \<circ> unat) os)"
    unfolding show_ipv4_def by (rule length_join_le) (use byte in auto)
  then show "length (show_ipv4 os) \<le> 16" using assms by simp
  show "show_ipv4 os \<noteq> []"
    unfolding show_ipv4_def by (rule join_nonempty) (use assms byte in auto)
qed

lemma length_hex_part:
  assumes "set ss \<subseteq> set (segments os)"
  shows "length (join '':'' (map show_hex ss)) \<le> 5 * length ss"
proof -
  have "length (join '':'' (map show_hex ss)) \<le> (4 + 1) * length (map show_hex ss)"
    by (rule length_join_le) (use assms segments_bound length_show_hex in auto)
  then show ?thesis by simp
qed

lemma show_ipv6_length:
  assumes "length os = 16" "to_ipv4_mapped os = None"
  shows "show_ipv6 os \<noteq> []" "length (show_ipv6 os) \<le> 42"
proof -
  let ?segs = "segments os" and ?z = "zero_span 0 (segments os) (0, 0) (0, 0)"
  have segs: "length ?segs = 8" using assms(1) by (simp add: length_Suc_conv eval_nat_numeral) force
  have whole: "length (join '':'' (map show_hex ?segs)) \<le> 40"
    using length_hex_part [of ?segs os] segs by simp
  have "length (join '':'' (map show_hex (take (fst ?z) ?segs))) \<le> 5 * length (take (fst ?z) ?segs)"
      "length (join '':'' (map show_hex (drop (fst ?z + snd ?z) ?segs))) \<le> 5 * length (drop (fst ?z + snd ?z) ?segs)"
    by (rule length_hex_part [OF set_take_subset], rule length_hex_part [OF set_drop_subset])
  then have parts: "length (join '':'' (map show_hex (take (fst ?z) ?segs))) +
      length (join '':'' (map show_hex (drop (fst ?z + snd ?z) ?segs))) \<le> 40"
    using segs by simp
  show "length (show_ipv6 os) \<le> 42"
    using parts whole assms(2) by (simp add: show_ipv6_def Let_def)
  have "join '':'' (map show_hex ?segs) \<noteq> []"
    by (rule join_nonempty) (use segs length_show_hex segments_bound in auto)
  then show "show_ipv6 os \<noteq> []" using assms(2) by (simp add: show_ipv6_def Let_def)
qed

lemma render_ip_length:
  assumes "value_fits f (VIp a)"
  shows "render_ip a \<noteq> []" "length (render_ip a) \<le> 42"
  using assms show_ipv4_length show_ipv6_length by (cases a; force simp: render_ip_def)+

section \<open>Typing\<close>

lemma uncut: "length s \<le> 42 \<Longrightarrow> kv_string_counted k s = (\<lparr> kv_key = k, kv_value = StringValue s \<rparr>, 0)"
  by (simp add: kv_string_counted_def truncate_utf8_counted_def ATTRIBUTE_LENGTH_CAP_def)

lemma field_attribute_plain:
  assumes "value_fits f v"
  shows "field_attribute f v = Some (\<lparr> kv_key = attribute_key f, kv_value = plain_value v \<rparr>, 0)"
proof (cases v)
  case (VIp a)
  then have "length (render_ip a) \<le> 42" using assms render_ip_length by blast
  then show ?thesis using VIp assms by (cases a; cases f) (simp_all add: field_attribute_def uncut)
qed (use assms in \<open>cases f; simp add: field_attribute_def kv_int_def\<close>)+

lemma plain_value_typed:
  assumes "value_fits f v"
  shows "has_attr_type (plain_value v) (attr_type_of f)"
proof (cases v)
  case (VIp a)
  then have "attr_type_of f = Text" using assms by (cases a) auto
  then show ?thesis using VIp assms render_ip_length by auto
next
  case (VProto p)
  then show ?thesis using assms uint_bounded [of p] by simp
next
  case (VDscp p)
  then show ?thesis using assms uint_bounded [of p] by simp
next
  case (VPort p)
  then show ?thesis using assms uint_bounded [of p] by auto
qed

lemma field_attributes_plain:
  "list_all2 value_fits fs vs \<Longrightarrow>
   field_attributes fs vs =
     map2 (\<lambda>f v. (\<lparr> kv_key = attribute_key f, kv_value = plain_value v \<rparr>, 0)) fs vs"
  by (induction rule: list_all2_induct) (simp_all add: field_attribute_plain)

section \<open>Properties\<close>

text \<open>
  C29. Decoding and exporting preserve types: for a key the decoder accepts, field by field, the
  attribute list has exactly one attribute per field, with the field's attribute key and a value
  of the field's type, a text of an address that is not empty and at most 42 bytes, or a number
  of 8 or 16 bits. None of them is cut, so the value exported is the value decoded.
\<close>

theorem decoded_attributes_typed:
  assumes "decode_key flds key_bytes = Ok vs"
  shows "map snd (field_attributes flds vs) = replicate (length flds) 0 \<and>
    list_all2 (\<lambda>f a. kv_key a = attribute_key f \<and> has_attr_type (kv_value a) (attr_type_of f))
      flds (map fst (field_attributes flds vs)) \<and>
    map (kv_value \<circ> fst) (field_attributes flds vs) = map plain_value vs"
proof -
  have fit: "list_all2 value_fits flds vs" using assms by (simp add: decode_key_iff)
  then have len: "length flds = length vs" by (rule list_all2_lengthD)
  have "has_attr_type (plain_value (vs ! i)) (attr_type_of (flds ! i))" if "i < length vs" for i
    using fit that len by (intro plain_value_typed) (simp add: list_all2_conv_all_nth)
  then show ?thesis
    using len by (auto simp: field_attributes_plain [OF fit] list_all2_conv_all_nth intro!: nth_equalityI)
qed

theorem decoded_attributes_typed_witness:
  "map (kv_value \<circ> fst) (field_attributes [IdSrcPort, IdDscp] [VPort 443, VDscp 46]) =
     [IntValue 443, IntValue 46]"
proof -
  have "decode_key [IdSrcPort, IdDscp] [1, 187, 46] = Ok [VPort 443, VDscp 46]"
    by (simp add: decode_key_iff)
  from decoded_attributes_typed [OF this] show ?thesis by simp
qed

end
