(* ===== verification/ControlClient.thy ===== *)
theory ControlClient
  imports Control
begin

text \<open>
  The client of the control socket, \<open>src/common/src/ipc/control_client.rs\<close>: one request over
  one connection, with its timeouts and its cap on the reply, and the typed calls on top of
  it. The wire between client and server, and the JSON on it, are inputs; the server at the
  other end is \<open>serve_connection\<close>, so a call is a step on the server's state.
\<close>

section \<open>Errors\<close>

datatype ctl_error =
    CtlConnect string
  | CtlRequest string
  | CtlBackend int string
  | CtlIo string
  | CtlProtocol string

definition show_int :: "int \<Rightarrow> string" where
  "show_int i = (if i < 0 then ''-'' @ show_nat (nat (- i)) else show_nat (nat i))"

fun ctl_error_msg :: "ctl_error \<Rightarrow> string" where
  "ctl_error_msg (CtlConnect e) = ''connection failed: '' @ e"
| "ctl_error_msg (CtlRequest e) = ''request failed: '' @ e"
| "ctl_error_msg (CtlBackend code message) =
     ''backend returned error: '' @ show_int code @ '' '' @ message"
| "ctl_error_msg (CtlIo e) = ''I/O error: '' @ e"
| "ctl_error_msg (CtlProtocol e) = ''protocol error: '' @ e"

section \<open>One exchange\<close>

text \<open>
  What the socket does during a call; \<open>None\<close> is a timeout. \<open>wi_text\<close> and \<open>wi_read\<close> are the
  client's serialisation of a request and its parsing of a response, \<open>wi_json\<close> the server's
  parsing, \<open>wi_reply\<close> the server's serialisation of a response (no reply when it fails).
\<close>

record wire =
  wi_connect :: "(string + unit) option"
  wi_write :: "(string + unit) option"
  wi_receive :: "(string + unit) option"
  wi_text :: "request \<Rightarrow> string + string"
  wi_json :: json
  wi_reply :: "response \<Rightarrow> string option"
  wi_read :: "string \<Rightarrow> string + response"

definition MAX_RESPONSE :: nat where
  "MAX_RESPONSE = 64 * 1024"

definition or_timeout :: "string \<Rightarrow> (string + unit) option \<Rightarrow> string + unit" where
  "or_timeout what r = (case r of None \<Rightarrow> Err what | Some x \<Rightarrow> x)"

definition newline :: string where
  "newline = [CHR 0x0A]"

text \<open>The bytes the server puts on the connection for a request line, and its state after.\<close>

definition server_bytes ::
    "wire \<Rightarrow> 'b control_backend \<Rightarrow> pull_world \<Rightarrow> string \<Rightarrow> 'b control_state \<Rightarrow> string \<times> 'b control_state" where
  "server_bytes wi be pw line st =
     (case serve_connection (wi_json wi) be pw line st of
        (None, st') \<Rightarrow> ([], st')
      | (Some resp, st') \<Rightarrow>
          ((case wi_reply wi resp of None \<Rightarrow> [] | Some text \<Rightarrow> text @ newline), st'))"

definition rpc ::
    "wire \<Rightarrow> 'b control_backend \<Rightarrow> pull_world \<Rightarrow> request \<Rightarrow> 'b control_state \<Rightarrow>
     (ctl_error + response) \<times> 'b control_state" where
  "rpc wi be pw req st =
     (case or_timeout ''connection timed out'' (wi_connect wi) of
        Err e \<Rightarrow> (Err (CtlConnect e), st)
      | Ok _ \<Rightarrow>
     (case wi_text wi req of
        Err e \<Rightarrow> (Err (CtlProtocol (''serialize request: '' @ e)), st)
      | Ok text \<Rightarrow>
     (case or_timeout ''write timed out'' (wi_write wi) of
        Err e \<Rightarrow> (Err (CtlIo e), st)
      | Ok _ \<Rightarrow>
     (case server_bytes wi be pw (text @ newline) st of (bytes, st') \<Rightarrow>
        (case or_timeout ''read timed out'' (wi_receive wi) of
           Err e \<Rightarrow> (Err (CtlIo e), st')
         | Ok _ \<Rightarrow>
             (map_err (\<lambda>e. CtlProtocol (''deserialize response: '' @ e))
                (wi_read wi (upto_newline (take MAX_RESPONSE bytes))), st'))))))"

definition check_ok :: "response \<Rightarrow> ctl_error + response_data option" where
  "check_ok resp =
     (if \<not> rp_ok resp then
        (let err = (case rp_error resp of
             None \<Rightarrow> \<lparr> er_code = - 1, er_message = ''unknown error'' \<rparr> | Some e \<Rightarrow> e)
         in Err (CtlBackend (er_code err) (er_message err)))
      else Ok (rp_data resp))"

definition rpc_ok ::
    "wire \<Rightarrow> 'b control_backend \<Rightarrow> pull_world \<Rightarrow> request \<Rightarrow> 'b control_state \<Rightarrow>
     (ctl_error + response_data option) \<times> 'b control_state" where
  "rpc_ok wi be pw req st =
     (case rpc wi be pw req st of (r, st') \<Rightarrow> (and_then r check_ok, st'))"

section \<open>Typed calls\<close>

definition unexpected :: "ctl_error + 'a" where
  "unexpected = Err (CtlProtocol ''unexpected response data'')"

definition decode_flow_rule_id :: "response_data option \<Rightarrow> ctl_error + flow_rule_id" where
  "decode_flow_rule_id data =
     (case data of
        Some (RFlowRuleId id_data) \<Rightarrow>
          map_err (\<lambda>e. CtlProtocol (''invalid FlowRuleId: '' @ e)) (parse_id (idd_id id_data))
      | _ \<Rightarrow> unexpected)"

definition rule_of_data :: "flow_rule_data \<Rightarrow> flow_rule" where
  "rule_of_data r =
     \<lparr> fr_name = rd_name r, fr_fields = rd_fields r, fr_max_keys = rd_max_keys r,
       fr_eviction_policy = rd_eviction_policy r \<rparr>"

definition decode_flow_rule_list :: "response_data option \<Rightarrow> ctl_error + flow_rule list" where
  "decode_flow_rule_list data =
     (case data of
        Some (RFlowRuleList l) \<Rightarrow> Ok (map rule_of_data (rl_rules l))
      | _ \<Rightarrow> unexpected)"

fun field_to_field_id :: "field \<Rightarrow> field_id option" where
  "field_to_field_id SrcIp = Some IdSrcIp"
| "field_to_field_id DstIp = Some IdDstIp"
| "field_to_field_id IpProto = Some IdIpProto"
| "field_to_field_id Dscp = Some IdDscp"
| "field_to_field_id MirrorSrcIp = Some IdMirrorSrcIp"
| "field_to_field_id SrcPort = Some IdSrcPort"
| "field_to_field_id DstPort = Some IdDstPort"

text \<open>The keys come back as texts; every one becomes the placeholder \<open>Proto(0)\<close>.\<close>

definition stats_of_entry :: "flow_entry_data \<Rightarrow> flow_stats" where
  "stats_of_entry f =
     \<lparr> fl_key = map (\<lambda>_. VProto 0) (ed_key f),
       fl_counters =
         \<lparr> ctr_packets = ed_packets f, ctr_bytes = ed_bytes f,
           ctr_first_seen_ns = ed_first_seen_ns f, ctr_last_seen_ns = ed_last_seen_ns f \<rparr> \<rparr>"

definition stats_of_detail :: "flow_rule_detail_data \<Rightarrow> flow_rule_stats" where
  "stats_of_detail detail =
     \<lparr> rs_name = dd_name detail,
       rs_fields = List.map_filter field_to_field_id (dd_fields detail),
       rs_max_keys = dd_max_keys detail,
       rs_eviction_policy = dd_eviction_policy detail,
       rs_flows = map stats_of_entry (dd_flows detail),
       rs_counters =
         \<lparr> rc_evictions = cd_evictions (dd_counters detail), rc_drops = cd_drops (dd_counters detail),
           rc_packets = cd_packets (dd_counters detail), rc_bytes = cd_bytes (dd_counters detail) \<rparr> \<rparr>"

definition decode_flow_rule_show :: "response_data option \<Rightarrow> ctl_error + flow_rule_stats" where
  "decode_flow_rule_show data =
     (case data of Some (RFlowRuleDetail detail) \<Rightarrow> Ok (stats_of_detail detail) | _ \<Rightarrow> unexpected)"

definition decode_stats_show :: "response_data option \<Rightarrow> ctl_error + stats_show_data" where
  "decode_stats_show data = (case data of Some (RStatsShow d) \<Rightarrow> Ok d | _ \<Rightarrow> unexpected)"

definition decode_stats_pull :: "response_data option \<Rightarrow> ctl_error + stats_pull_data" where
  "decode_stats_pull data = (case data of Some (RStatsPull d) \<Rightarrow> Ok d | _ \<Rightarrow> unexpected)"

text \<open>A call: a request, and what its answer is read as.\<close>

definition call ::
    "request \<Rightarrow> (response_data option \<Rightarrow> ctl_error + 'r) \<Rightarrow> wire \<Rightarrow> 'b control_backend \<Rightarrow> pull_world \<Rightarrow>
     'b control_state \<Rightarrow> (ctl_error + 'r) \<times> 'b control_state" where
  "call req decode wi be pw st =
     (case rpc_ok wi be pw req st of (r, st') \<Rightarrow> (and_then r decode, st'))"

definition client_flow_rule_add where
  "client_flow_rule_add def =
     call (FlowRuleAdd \<lparr> ap_name = fr_name def, ap_fields = fr_fields def,
                         ap_max_keys = fr_max_keys def, ap_eviction_policy = fr_eviction_policy def \<rparr>)
       decode_flow_rule_id"

definition client_flow_rule_rm where
  "client_flow_rule_rm name = call (FlowRuleRm \<lparr> rmp_name = name \<rparr>) (\<lambda>_. Ok ())"

definition client_flow_rule_list where
  "client_flow_rule_list = call FlowRuleList decode_flow_rule_list"

definition client_flow_rule_show where
  "client_flow_rule_show name = call (FlowRuleShow \<lparr> shp_name = name \<rparr>) decode_flow_rule_show"

definition client_stats_show where
  "client_stats_show name = call (StatsShow \<lparr> ssp_name = name \<rparr>) decode_stats_show"

definition client_stats_pull where
  "client_stats_pull = call StatsPull decode_stats_pull"

text \<open>Two calls are stubs.\<close>

definition client_reload :: "ctl_error + unit" where
  "client_reload = Err (CtlRequest ''not implemented (stub)'')"

record exporter_status =
  es_name :: string
  es_kind :: string
  es_healthy :: bool
  es_ticks_exported :: u64
  es_ticks_dropped :: u64

definition client_exporter_list :: "ctl_error + exporter_status list" where
  "client_exporter_list = Err (CtlRequest ''not implemented (stub)'')"

section \<open>A working wire\<close>

text \<open>
  The wire works for a request and its response: nothing times out or fails, and either side
  reads back the one line the other wrote, which fits the reader's cap.
\<close>

definition wire_up :: "wire \<Rightarrow> bool" where
  "wire_up wi \<longleftrightarrow>
     wi_connect wi = Some (Ok ()) \<and> wi_write wi = Some (Ok ()) \<and> wi_receive wi = Some (Ok ())"

definition carries_request :: "wire \<Rightarrow> request \<Rightarrow> bool" where
  "carries_request wi req \<longleftrightarrow>
     (\<exists>t. wi_text wi req = Ok t \<and> CHR 0x0A \<notin> set t \<and> length t < MAX_LINE \<and>
        js_utf8 (wi_json wi) (t @ newline) \<and> js_parse (wi_json wi) (t @ newline) = Ok req)"

definition carries_response :: "wire \<Rightarrow> response \<Rightarrow> bool" where
  "carries_response wi resp \<longleftrightarrow>
     (\<exists>t. wi_reply wi resp = Some t \<and> CHR 0x0A \<notin> set t \<and> length t < MAX_RESPONSE \<and>
        wi_read wi (t @ newline) = Ok resp)"

definition carries :: "wire \<Rightarrow> 'b control_backend \<Rightarrow> pull_world \<Rightarrow> request \<Rightarrow> 'b control_state \<Rightarrow> bool" where
  "carries wi be pw req st \<longleftrightarrow>
     wire_up wi \<and> carries_request wi req \<and> carries_response wi (fst (handle_request be pw req st))"

lemma upto_newline_line: "CHR 0x0A \<notin> set t \<Longrightarrow> upto_newline (t @ newline) = t @ newline"
  by (induction t) (auto simp: newline_def)

lemma take_line: "length t < n \<Longrightarrow> take n (t @ newline) = t @ newline"
  by (simp add: newline_def)

lemma rpc_carried:
  assumes "carries wi be pw req st"
  shows "rpc wi be pw req st = (Ok (fst (handle_request be pw req st)), snd (handle_request be pw req st))"
proof -
  obtain t where t: "wi_text wi req = Ok t" "CHR 0x0A \<notin> set t" "length t < MAX_LINE"
      "js_utf8 (wi_json wi) (t @ newline)" "js_parse (wi_json wi) (t @ newline) = Ok req"
    using assms by (auto simp: carries_def carries_request_def)
  obtain u where u: "wi_reply wi (fst (handle_request be pw req st)) = Some u" "CHR 0x0A \<notin> set u"
      "length u < MAX_RESPONSE" "wi_read wi (u @ newline) = Ok (fst (handle_request be pw req st))"
    using assms by (auto simp: carries_def carries_response_def)
  have line: "read_line (t @ newline) = t @ newline"
    using t(2,3) unfolding read_line_def by (subst take_line) (simp_all add: upto_newline_line)
  have line_end: "t @ newline \<noteq> []" "ends_with_newline (t @ newline)"
    by (simp_all add: ends_with_newline_def newline_def)
  have "serve_connection (wi_json wi) be pw (t @ newline) st =
      (Some (fst (handle_request be pw req st)), snd (handle_request be pw req st))"
    using t line_end by (simp add: serve_connection_def line Let_def split_beta)
  then have bytes: "server_bytes wi be pw (t @ newline) st = (u @ newline, snd (handle_request be pw req st))"
    using u by (simp add: server_bytes_def)
  show ?thesis
    using assms t(1) u
    by (simp add: rpc_def carries_def wire_up_def or_timeout_def bytes take_line upto_newline_line
        del: take_append)
qed

lemma call_carried:
  "carries wi be pw req st \<Longrightarrow>
   call req decode wi be pw st =
     (and_then (check_ok (fst (handle_request be pw req st))) decode, snd (handle_request be pw req st))"
  by (simp add: call_def rpc_ok_def rpc_carried)

lemma check_ok_simps [simp]:
  "check_ok (response_ok d) = Ok (Some d)"
  "check_ok response_ok_empty = Ok None"
  "check_ok (response_err code message) = Err (CtlBackend code message)"
  by (simp_all add: check_ok_def response_defs)

text \<open>When the connection cannot be made, the server's state does not change.\<close>

lemma call_unconnected:
  "or_timeout ''connection timed out'' (wi_connect wi) = Err e \<Longrightarrow>
   call req decode wi be pw st = (Err (CtlConnect e), st)"
  by (simp add: call_def rpc_ok_def rpc_def)

text \<open>The text of an identifier made by the server is read back as that identifier.\<close>

lemma parse_issued: "parse_id (hex16 h @ CHR ''-'' # hex16 l) = Ok \<lparr> id_hi = h, id_lo = l \<rparr>"
  using parse_display [of "\<lparr> id_hi = h, id_lo = l \<rparr>"] by (simp add: display_id_def)

definition added_to :: "'b control_state \<Rightarrow> flow_rule \<Rightarrow> 'b control_state" where
  "added_to st r = st\<lparr>cs_flow_rules := cs_flow_rules st @ [r]\<rparr>"

lemma client_add_exact:
  assumes "carries wi be pw (FlowRuleAdd (params_of r)) st"
  shows "client_flow_rule_add r wi be pw st =
    (if fr_name r \<in> fr_name ` set (cs_flow_rules st)
     then (Err (CtlBackend 6 (exists_msg (fr_name r))), st)
     else case cs_vapi_control st of
       None \<Rightarrow> (Ok \<lparr> id_hi = cs_next_rule_id st, id_lo = 0 \<rparr>,
                (added_to st r)\<lparr>cs_next_rule_id := cs_next_rule_id st + 1\<rparr>)
     | Some b \<Rightarrow>
         (case vapi_flow_rule_add be (fr_name r) (fr_fields r) (fr_max_keys r) (fr_eviction_policy r) b of
            (Ok i, b') \<Rightarrow>
              (Ok i, (added_to st r)\<lparr> cs_vapi_control := Some b',
                        cs_rule_id_map := (cs_rule_id_map st)(fr_name r \<mapsto> i) \<rparr>)
          | (Err e, b') \<Rightarrow>
              (Err (CtlBackend 7 (rejected_msg (fr_name r) e)), st\<lparr>cs_vapi_control := Some b'\<rparr>)))"
proof -
  have call: "client_flow_rule_add r wi be pw st =
      (and_then (check_ok (fst (handle_flow_rule_add be (params_of r) st))) decode_flow_rule_id,
       snd (handle_flow_rule_add be (params_of r) st))"
    using call_carried [OF assms, of decode_flow_rule_id]
    by (simp add: client_flow_rule_add_def params_of_def handle_request_def)
  have id: "parse_id (hex16 (id_hi i) @ CHR ''-'' # hex16 (id_lo i)) = Ok i" for i
    by (simp add: parse_issued)
  have ex: "list_ex (\<lambda>q. fr_name q = fr_name r) (cs_flow_rules st) \<longleftrightarrow>
      fr_name r \<in> fr_name ` set (cs_flow_rules st)"
    by (auto simp: list_ex_iff intro: rev_image_eqI)
  show ?thesis
    unfolding call
    by (auto simp: handle_flow_rule_add_def params_of_def Let_def decode_flow_rule_id_def id parse_issued
        ex added_to_def split: option.split sum.split prod.split)
qed

lemma client_rm_missing:
  assumes "carries wi be pw (FlowRuleRm \<lparr> rmp_name = n \<rparr>) st"
    and "n \<notin> fr_name ` set (cs_flow_rules st)"
  shows "client_flow_rule_rm n wi be pw st = (Err (CtlBackend 3 (missing_msg n)), st)"
  using call_carried [OF assms(1), of "\<lambda>_. Ok ()"] assms(2)
  by (auto simp: client_flow_rule_rm_def handle_request_def handle_flow_rule_rm_def list_ex_iff)

lemma client_list_exact:
  assumes "carries wi be pw FlowRuleList st"
  shows "client_flow_rule_list wi be pw st = (Ok (cs_flow_rules st), st)"
proof -
  have "rule_of_data (flow_rule_data_from r) = r" for r
    by (simp add: rule_of_data_def flow_rule_data_from_def)
  then have "map rule_of_data (map flow_rule_data_from rs) = rs" for rs
    by (simp add: map_idI)
  then show ?thesis
    using call_carried [OF assms, of decode_flow_rule_list]
    by (simp add: client_flow_rule_list_def handle_request_def handle_flow_rule_list_def
        decode_flow_rule_list_def)
qed

end
