(* ===== verification/Cli.thy ===== *)
theory Cli
  imports ControlClient
begin

text \<open>
  The operator's command line, \<open>src/cli\<close>: the commands clap parses into, the parsing of a
  flow-rule specification, the commands that talk to the frontend and to systemd, the tables
  they print and the exit codes they end with. Clap, JSON rendering and external programs are
  inputs. A command's result is its exit code, the lines it prints on either stream, and the
  state of the frontend it talked to.
\<close>

section \<open>Exit codes\<close>

definition EXIT_SUCCESS :: int where
  "EXIT_SUCCESS = 0"

definition EXIT_FAILURE :: int where
  "EXIT_FAILURE = 1"

definition EXIT_USAGE :: int where
  "EXIT_USAGE = 2"

definition EXIT_NOT_FOUND :: int where
  "EXIT_NOT_FOUND = 3"

definition EXIT_FRONTEND_UNREACHABLE :: int where
  "EXIT_FRONTEND_UNREACHABLE = 4"

definition EXIT_BACKEND_NOT_READY :: int where
  "EXIT_BACKEND_NOT_READY = 5"

definition EXIT_CONFLICT :: int where
  "EXIT_CONFLICT = 6"

definition EXIT_DEGRADED :: int where
  "EXIT_DEGRADED = 7"

definition EXIT_PERMISSION_DENIED :: int where
  "EXIT_PERMISSION_DENIED = 13"

definition EXIT_SERVICE_UNAVAILABLE :: int where
  "EXIT_SERVICE_UNAVAILABLE = 69"

definition EXIT_SIGINT :: int where
  "EXIT_SIGINT = 130"

definition EXIT_SIGTERM :: int where
  "EXIT_SIGTERM = 143"

lemmas exit_codes =
  EXIT_SUCCESS_def EXIT_FAILURE_def EXIT_USAGE_def EXIT_NOT_FOUND_def EXIT_FRONTEND_UNREACHABLE_def
  EXIT_CONFLICT_def EXIT_DEGRADED_def EXIT_PERMISSION_DENIED_def EXIT_SERVICE_UNAVAILABLE_def

definition ctl_error_to_exit_code :: "ctl_error \<Rightarrow> int" where
  "ctl_error_to_exit_code e =
     (case e of
        CtlConnect _ \<Rightarrow> EXIT_FRONTEND_UNREACHABLE
      | CtlBackend code _ \<Rightarrow>
          if code = 3 then EXIT_NOT_FOUND
          else if code = 6 then EXIT_CONFLICT
          else EXIT_FAILURE
      | _ \<Rightarrow> EXIT_FAILURE)"

section \<open>Commands\<close>

datatype output_format = Table | Json

datatype flow_sort_field = ByBytes | ByPackets | ByLastSeen

datatype export_format = Prom | Otlp | JsonExport

datatype config_command =
    ConfigGet string
  | ConfigSet string string "string option"
  | ConfigReload
  | ConfigShow bool

datatype flow_rule_command =
    RuleAdd "string list"
  | RuleRm string bool
  | RuleList
  | RuleShow string

datatype flow_command =
    FlowList string nat flow_sort_field
  | FlowShow string string

datatype stats_command =
    StatsShowCmd "string option" nat "nat option"
  | StatsPullCmd
  | StatsExport export_format

datatype log_command = LogTail bool "string option" nat

datatype command =
    Install bool
  | Uninstall bool
  | StartCmd
  | StopCmd
  | RestartCmd
  | StatusCmd
  | ConfigCmd config_command
  | FlowRuleCmd flow_rule_command
  | FlowCmd flow_command
  | StatsCmd stats_command
  | LogCmd log_command
  | HealthCmd

fun variant_name :: "command \<Rightarrow> string" where
  "variant_name (Install _) = ''install''"
| "variant_name (Uninstall _) = ''uninstall''"
| "variant_name StartCmd = ''start''"
| "variant_name StopCmd = ''stop''"
| "variant_name RestartCmd = ''restart''"
| "variant_name StatusCmd = ''status''"
| "variant_name (ConfigCmd _) = ''config''"
| "variant_name (FlowRuleCmd _) = ''flow-rule''"
| "variant_name (FlowCmd _) = ''flow''"
| "variant_name (StatsCmd _) = ''stats''"
| "variant_name (LogCmd _) = ''log''"
| "variant_name HealthCmd = ''health''"

record cli =
  cl_command :: command
  cl_output :: output_format
  cl_json :: bool
  cl_compact :: bool
  cl_raw_bytes :: bool
  cl_config :: string
  cl_socket :: string
  cl_timeout :: u64
  cl_no_color :: bool
  cl_quiet :: bool
  cl_verbose :: u8

definition effective_output :: "cli \<Rightarrow> output_format" where
  "effective_output c = (if cl_json c then Json else cl_output c)"

section \<open>A flow-rule specification\<close>

fun field_arg :: "field \<Rightarrow> string" where
  "field_arg SrcIp = ''src_ip''"
| "field_arg DstIp = ''dst_ip''"
| "field_arg IpProto = ''ip_proto''"
| "field_arg Dscp = ''dscp''"
| "field_arg MirrorSrcIp = ''mirror_src_ip''"
| "field_arg SrcPort = ''src_port''"
| "field_arg DstPort = ''dst_port''"

definition field_named :: "string \<Rightarrow> string + field" where
  "field_named s =
     (if s = ''src_ip'' then Ok SrcIp
      else if s = ''dst_ip'' then Ok DstIp
      else if s = ''ip_proto'' then Ok IpProto
      else if s = ''dscp'' then Ok Dscp
      else if s = ''mirror_src_ip'' then Ok MirrorSrcIp
      else if s = ''src_port'' then Ok SrcPort
      else if s = ''dst_port'' then Ok DstPort
      else Err (''infmonctl: unknown field: '' @ s))"

fun fields_named :: "string list \<Rightarrow> string + field list" where
  "fields_named [] = Ok []"
| "fields_named (f # fs) =
     and_then (field_named (trim f)) (\<lambda>x. and_then (fields_named fs) (\<lambda>xs. Ok (x # xs)))"

text \<open>The variables the loop over the arguments fills.\<close>

record spec_vars =
  sv_name :: "string option"
  sv_fields :: "field list"
  sv_max_keys :: u32
  sv_eviction_policy :: eviction_policy

definition spec_start :: spec_vars where
  "spec_start = \<lparr> sv_name = None, sv_fields = [], sv_max_keys = 1024, sv_eviction_policy = LruDrop \<rparr>"

definition spec_arg :: "string \<Rightarrow> spec_vars \<Rightarrow> string + spec_vars" where
  "spec_arg kv sv =
     (case split_once (CHR ''='') kv of
        None \<Rightarrow> Err (''infmonctl: invalid spec format, expected key=value: '' @ kv)
      | Some (k, v) \<Rightarrow>
          if k = ''name'' then Ok (sv\<lparr>sv_name := Some v\<rparr>)
          else if k = ''fields'' then
            and_then (fields_named (split_on (CHR '','') v))
              (\<lambda>fs. Ok (sv\<lparr>sv_fields := sv_fields sv @ fs\<rparr>))
          else if k = ''max_keys'' then
            (case parse_u32 v of
               Ok n \<Rightarrow> Ok (sv\<lparr>sv_max_keys := word_of_nat n\<rparr>)
             | Err _ \<Rightarrow> Err (''infmonctl: invalid max_keys: '' @ v))
          else if k = ''eviction_policy'' then
            (if v = ''lru_drop'' then Ok (sv\<lparr>sv_eviction_policy := LruDrop\<rparr>)
             else Err (''infmonctl: unknown eviction_policy: '' @ v @ '' (supported: lru_drop)''))
          else Err (''infmonctl: unknown spec key: '' @ k))"

fun spec_args :: "string list \<Rightarrow> spec_vars \<Rightarrow> string + spec_vars" where
  "spec_args [] sv = Ok sv"
| "spec_args (kv # kvs) sv = and_then (spec_arg kv sv) (spec_args kvs)"

definition parse_spec :: "string list \<Rightarrow> string + flow_rule" where
  "parse_spec spec =
     and_then (spec_args spec spec_start)
       (\<lambda>sv. case sv_name sv of
          None \<Rightarrow> Err ''infmonctl: flow-rule add: name=<name> is required''
        | Some name \<Rightarrow>
            if sv_fields sv = [] then Err ''infmonctl: flow-rule add: fields=<field,...> is required''
            else Ok \<lparr> fr_name = name, fr_fields = sv_fields sv, fr_max_keys = sv_max_keys sv,
                      fr_eviction_policy = sv_eviction_policy sv \<rparr>)"

section \<open>Tables\<close>

definition char_count :: "string \<Rightarrow> nat" where
  "char_count s = length (filter (\<lambda>c. \<not> (128 \<le> byte c \<and> byte c < 192)) s)"

definition pad_right :: "nat \<Rightarrow> string \<Rightarrow> string" where
  "pad_right n s = s @ replicate (n - char_count s) (CHR '' '')"

definition pad_left :: "nat \<Rightarrow> string \<Rightarrow> string" where
  "pad_left n s = replicate (n - char_count s) (CHR '' '') @ s"

definition lower :: "string \<Rightarrow> string" where
  "lower s = map (\<lambda>c. if 65 \<le> byte c \<and> byte c \<le> 90 then char_of (byte c + 32) else c) s"

definition show_u64 :: "u64 \<Rightarrow> string" where
  "show_u64 w = show_nat (unat w)"

datatype printable =
    PList "flow_rule_data list"
  | PDetail flow_rule_detail_data
  | PStats stats_show_data
  | PPull stats_pull_data
  | PAdded flow_rule_id string
  | PStatus bool string bool
  | PError string

definition rule_row :: "flow_rule_data \<Rightarrow> string" where
  "rule_row r =
     pad_right 20 (rd_name r) @ '' '' @
     pad_right 30 (join '','' (map (\<lambda>f. lower (field_debug f)) (rd_fields r))) @ '' '' @
     pad_left 10 (show_nat (unat (rd_max_keys r)))"

definition list_table :: "flow_rule_data list \<Rightarrow> string list" where
  "list_table rules =
     (if rules = [] then [''No flow rules configured.'']
      else (pad_right 20 ''NAME'' @ '' '' @ pad_right 30 ''FIELDS'' @ '' '' @ pad_left 10 ''MAX_KEYS'')
           # map rule_row rules)"

definition detail_table :: "flow_rule_detail_data \<Rightarrow> string list" where
  "detail_table d =
     [''Name:       '' @ dd_name d,
      ''Fields:     '' @ join '', '' (map (\<lambda>f. lower (field_debug f)) (dd_fields d)),
      ''Max keys:   '' @ show_nat (unat (dd_max_keys d)),
      ''Counters:'',
      ''  Packets:    '' @ show_u64 (cd_packets (dd_counters d)),
      ''  Bytes:      '' @ show_u64 (cd_bytes (dd_counters d)),
      ''  Evictions:  '' @ show_u64 (cd_evictions (dd_counters d)),
      ''  Drops:      '' @ show_u64 (cd_drops (dd_counters d))] @
     (if dd_flows d = [] then []
      else (''Flows ('' @ show_nat (length (dd_flows d)) @ ''):'')
           # map (\<lambda>f. ''  Key: '' @ join '','' (ed_key f) @ ''  Pkts: '' @ show_u64 (ed_packets f) @
                        ''  Bytes: '' @ show_u64 (ed_bytes f)) (dd_flows d))"

definition stats_header :: string where
  "stats_header =
     pad_right 20 ''RULE'' @ '' '' @ pad_left 12 ''PACKETS'' @ '' '' @ pad_left 12 ''BYTES'' @ '' '' @
     pad_left 10 ''FLOWS'' @ '' '' @ pad_left 8 ''EVICT'' @ '' '' @ pad_left 8 ''DROPS''"

definition stats_row :: "flow_rule_stats_data \<Rightarrow> string" where
  "stats_row r =
     pad_right 20 (sd_name r) @ '' '' @ pad_left 12 (show_u64 (sd_packets r)) @ '' '' @
     pad_left 12 (show_u64 (sd_bytes r)) @ '' '' @ pad_left 10 (show_u64 (sd_active_flows r)) @ '' '' @
     pad_left 8 (show_u64 (sd_evictions r)) @ '' '' @ pad_left 8 (show_u64 (sd_drops r))"

definition stats_table :: "stats_show_data \<Rightarrow> string list" where
  "stats_table d =
     (if ss_flow_rules d = [] then [''No flow rule stats available.'']
      else stats_header # map stats_row (ss_flow_rules d))"

definition pull_table :: "stats_pull_data \<Rightarrow> string list" where
  "pull_table d =
     (''Snapshot pulled (tick_id='' @ show_u64 (sp_tick_id d) @ '', wall_clock_ns='' @
      show_u64 (sp_wall_clock_ns d) @ '')'')
     # (if ss_flow_rules (sp_stats d) = [] then [''No flow rule stats in snapshot.'']
        else stats_header # map stats_row (ss_flow_rules (sp_stats d)))"

section \<open>Commands that talk to the frontend\<close>

text \<open>
  The world of one invocation: whether the user is root, the wire to the frontend and its
  poller, JSON rendering (\<open>cw_value\<close> of a \<open>json!\<close> value, \<open>cw_render\<close> of a serialised one, compact
  or pretty), and external programs by name and arguments (success, standard output, standard
  error).
\<close>

record command_output =
  co_success :: bool
  co_stdout :: string
  co_stderr :: string

record cli_world =
  cw_root :: bool
  cw_wire :: wire
  cw_pull :: pull_world
  cw_value :: "printable \<Rightarrow> string"
  cw_render :: "bool \<Rightarrow> printable \<Rightarrow> string + string"
  cw_cmd :: "string \<Rightarrow> string list \<Rightarrow> string + command_output"

type_synonym printed = "string list \<times> string list"

text \<open>\<open>print_output\<close>: the lines on standard output.\<close>

definition table_of :: "printable \<Rightarrow> string list" where
  "table_of x =
     (case x of
        PList rules \<Rightarrow> list_table rules
      | PDetail d \<Rightarrow> detail_table d
      | PStats d \<Rightarrow> stats_table d
      | PPull d \<Rightarrow> pull_table d
      | PAdded i name \<Rightarrow> [''Added flow rule '' @ quoted name @ '' (id: '' @ display_id i @ '')'']
      | _ \<Rightarrow> [])"

definition print_output :: "cli_world \<Rightarrow> printable \<Rightarrow> output_format \<Rightarrow> bool \<Rightarrow> string list" where
  "print_output w x format compact =
     (case format of
        Table \<Rightarrow> table_of x
      | Json \<Rightarrow>
          [case cw_render w compact x of
             Ok text \<Rightarrow> text
           | Err e \<Rightarrow> cw_value w (PError (''serialize failed: '' @ e))])"

fun field_id_to_field :: "field_id \<Rightarrow> field" where
  "field_id_to_field IdSrcIp = SrcIp"
| "field_id_to_field IdDstIp = DstIp"
| "field_id_to_field IdIpProto = IpProto"
| "field_id_to_field IdDscp = Dscp"
| "field_id_to_field IdMirrorSrcIp = MirrorSrcIp"
| "field_id_to_field IdSrcPort = SrcPort"
| "field_id_to_field IdDstPort = DstPort"

definition detail_of_stats :: "flow_rule_stats \<Rightarrow> flow_rule_detail_data" where
  "detail_of_stats stats =
     \<lparr> dd_name = rs_name stats, dd_fields = map field_id_to_field (rs_fields stats),
       dd_max_keys = rs_max_keys stats, dd_eviction_policy = rs_eviction_policy stats,
       dd_counters =
         \<lparr> cd_packets = rc_packets (rs_counters stats), cd_bytes = rc_bytes (rs_counters stats),
           cd_evictions = rc_evictions (rs_counters stats), cd_drops = rc_drops (rs_counters stats) \<rparr>,
       dd_flows = map flow_entry_of (rs_flows stats) \<rparr>"

text \<open>A failed call: its message and the exit code of its error.\<close>

definition failed_call :: "string \<Rightarrow> ctl_error \<Rightarrow> int \<times> printed" where
  "failed_call what e =
     (ctl_error_to_exit_code e, [], [''infmonctl: '' @ what @ '': '' @ ctl_error_msg e])"

definition needs_root :: "string \<Rightarrow> int \<times> printed" where
  "needs_root what = (EXIT_PERMISSION_DENIED, [], [''infmonctl: '' @ what @ '' requires root privileges''])"

definition show_result :: "cli_world \<Rightarrow> cli \<Rightarrow> string \<Rightarrow> ctl_error + printable \<Rightarrow> int \<times> printed" where
  "show_result w c what r =
     (case r of
        Ok x \<Rightarrow> (EXIT_SUCCESS, print_output w x (effective_output c) (cl_compact c), [])
      | Err e \<Rightarrow> failed_call what e)"

type_synonym 'b ran = "(int \<times> printed) \<times> 'b control_state"

definition run_rule_add :: "cli_world \<Rightarrow> 'b control_backend \<Rightarrow> cli \<Rightarrow> string list \<Rightarrow> 'b control_state \<Rightarrow> 'b ran" where
  "run_rule_add w be c spec st =
     (if \<not> cw_root w then (needs_root ''flow-rule add'', st)
      else case parse_spec spec of
        Err msg \<Rightarrow> ((EXIT_USAGE, [], [msg]), st)
      | Ok def \<Rightarrow>
          (case client_flow_rule_add def (cw_wire w) be (cw_pull w) st of
             (Ok i, st') \<Rightarrow>
               ((EXIT_SUCCESS,
                 (case effective_output c of
                    Json \<Rightarrow> [cw_value w (PAdded i (fr_name def))]
                  | Table \<Rightarrow> table_of (PAdded i (fr_name def))), []), st')
           | (Err e, st') \<Rightarrow> (failed_call ''flow-rule add'' e, st')))"

definition run_rule_rm :: "cli_world \<Rightarrow> 'b control_backend \<Rightarrow> cli \<Rightarrow> string \<Rightarrow> bool \<Rightarrow> 'b control_state \<Rightarrow> 'b ran" where
  "run_rule_rm w be c target rm_all st =
     (if \<not> cw_root w then (needs_root ''flow-rule rm'', st)
      else if rm_all then ((EXIT_FAILURE, [], [''infmonctl: flow-rule rm --all: not yet implemented'']), st)
      else case client_flow_rule_rm target (cw_wire w) be (cw_pull w) st of
        (Ok _, st') \<Rightarrow>
          ((EXIT_SUCCESS, [], if cl_quiet c then [] else [''Removed flow rule '' @ quoted target]), st')
      | (Err e, st') \<Rightarrow> (failed_call ''flow-rule rm'' e, st'))"

definition run_flow_rule ::
    "cli_world \<Rightarrow> 'b control_backend \<Rightarrow> cli \<Rightarrow> flow_rule_command \<Rightarrow> 'b control_state \<Rightarrow> 'b ran" where
  "run_flow_rule w be c cmd st =
     (case cmd of
        RuleAdd spec \<Rightarrow> run_rule_add w be c spec st
      | RuleRm target rm_all \<Rightarrow> run_rule_rm w be c target rm_all st
      | RuleList \<Rightarrow>
          (case client_flow_rule_list (cw_wire w) be (cw_pull w) st of
             (r, st') \<Rightarrow>
               (show_result w c ''flow-rule list'' (and_then r (\<lambda>rs. Ok (PList (map flow_rule_data_from rs)))), st'))
      | RuleShow target \<Rightarrow>
          (case client_flow_rule_show target (cw_wire w) be (cw_pull w) st of
             (r, st') \<Rightarrow>
               (show_result w c ''flow-rule show'' (and_then r (\<lambda>s. Ok (PDetail (detail_of_stats s)))), st')))"

text \<open>What \<open>stats show\<close> says of the options it ignores, before it asks the frontend.\<close>

definition stats_notes :: "stats_command \<Rightarrow> string list" where
  "stats_notes cmd =
     (case cmd of
        StatsShowCmd name top_n watch \<Rightarrow>
          (if 0 < top_n then [''infmonctl: stats show --top: not yet implemented, showing all''] else []) @
          (if watch \<noteq> None then [''infmonctl: stats show --watch: not yet implemented, showing once''] else [])
      | _ \<Rightarrow> [])"

definition run_stats ::
    "cli_world \<Rightarrow> 'b control_backend \<Rightarrow> cli \<Rightarrow> stats_command \<Rightarrow> 'b control_state \<Rightarrow> 'b ran" where
  "run_stats w be c cmd st =
     (case cmd of
        StatsShowCmd name top_n watch \<Rightarrow>
          (case client_stats_show name (cw_wire w) be (cw_pull w) st of
             (r, st') \<Rightarrow>
               (case show_result w c ''stats show'' (and_then r (\<lambda>d. Ok (PStats d))) of
                  (code, out, err) \<Rightarrow> ((code, out, stats_notes cmd @ err), st')))
      | StatsPullCmd \<Rightarrow>
          (case client_stats_pull (cw_wire w) be (cw_pull w) st of
             (r, st') \<Rightarrow> (show_result w c ''stats pull'' (and_then r (\<lambda>d. Ok (PPull d))), st'))
      | StatsExport _ \<Rightarrow>
          ((EXIT_FAILURE, [], [''infmonctl: stats export: not yet implemented (stub)'']), st))"

section \<open>Commands on the service\<close>

definition run_lifecycle :: "cli_world \<Rightarrow> string \<Rightarrow> int \<times> printed" where
  "run_lifecycle w action =
     (if \<not> cw_root w then needs_root action
      else case cw_cmd w ''systemctl'' [action, ''infmon''] of
        Ok out \<Rightarrow>
          if \<not> co_success out
          then (EXIT_FAILURE, [], [''infmonctl: '' @ action @ '': systemctl failed: '' @ trim (co_stderr out)])
          else (EXIT_SUCCESS, [], [''infmonctl: '' @ action @ '': OK''])
      | Err e \<Rightarrow> (EXIT_FAILURE, [], [''infmonctl: '' @ action @ '': failed to run systemctl: '' @ e]))"

text \<open>\<open>str::lines\<close>: split at newlines, each without a final carriage return, no empty last line.\<close>

definition drop_cr :: "string \<Rightarrow> string" where
  "drop_cr s = (case strip_suffix [CHR 0x0D] s of Some t \<Rightarrow> t | None \<Rightarrow> s)"

fun line_pieces :: "string list \<Rightarrow> string list" where
  "line_pieces [] = []"
| "line_pieces [s] = (if s = [] then [] else [s])"
| "line_pieces (s # t # ts) = drop_cr s # line_pieces (t # ts)"

definition str_lines :: "string \<Rightarrow> string list" where
  "str_lines s = line_pieces (split_on (CHR 0x0A) s)"

definition systemd_state_of :: "string + command_output \<Rightarrow> string" where
  "systemd_state_of r =
     (case r of
        Ok out \<Rightarrow>
          (let raw = trim (co_stdout out); parts = str_lines raw
           in if length parts = 2 then trim (parts ! 0) @ ''/'' @ trim (parts ! 1) else raw)
      | Err _ \<Rightarrow> ''unknown'')"

definition status_icon :: "bool \<Rightarrow> string" where
  "status_icon b = (if b then [CHR 0xE2, CHR 0x97, CHR 0x8F] else [CHR 0xE2, CHR 0x97, CHR 0x8B])"

definition run_status :: "cli_world \<Rightarrow> 'b control_backend \<Rightarrow> cli \<Rightarrow> 'b control_state \<Rightarrow> 'b ran" where
  "run_status w be c st =
     (let active =
        (case cw_cmd w ''systemctl'' [''is-active'', ''infmon''] of
           Ok out \<Rightarrow> trim (co_stdout out) = ''active''
         | Err _ \<Rightarrow> False);
        systemd_state = systemd_state_of
          (cw_cmd w ''systemctl'' [''show'', ''infmon'', ''--property=ActiveState,SubState'', ''--value''])
      in case client_stats_show None (cw_wire w) be (cw_pull w) st of
           (r, st') \<Rightarrow>
             (let responsive = (case r of Ok _ \<Rightarrow> True | Err _ \<Rightarrow> False)
              in ((if active \<and> responsive then EXIT_SUCCESS
                   else if active then EXIT_DEGRADED
                   else EXIT_SERVICE_UNAVAILABLE,
                   (case effective_output c of
                      Json \<Rightarrow> [cw_value w (PStatus active systemd_state responsive)]
                    | Table \<Rightarrow>
                        [status_icon active @ '' systemd: '' @ systemd_state,
                         status_icon responsive @ '' frontend: '' @
                           (if responsive then ''responsive'' else ''not responding'')]), []), st')))"

definition stub :: "string \<Rightarrow> int \<times> printed" where
  "stub what = (EXIT_FAILURE, [], [''infmonctl: '' @ what @ '': not yet implemented (stub)''])"

definition run_config :: "cli_world \<Rightarrow> config_command \<Rightarrow> int \<times> printed" where
  "run_config w cmd =
     (case cmd of
        ConfigGet _ \<Rightarrow> stub ''config get''
      | ConfigSet _ _ _ \<Rightarrow> if \<not> cw_root w then needs_root ''config set'' else stub ''config set''
      | ConfigReload \<Rightarrow> if \<not> cw_root w then needs_root ''config reload'' else stub ''config reload''
      | ConfigShow _ \<Rightarrow> stub ''config show'')"

definition run_flow :: "flow_command \<Rightarrow> int \<times> printed" where
  "run_flow cmd = (case cmd of FlowList _ _ _ \<Rightarrow> stub ''flow list'' | FlowShow _ _ \<Rightarrow> stub ''flow show'')"

definition run_log :: "log_command \<Rightarrow> int \<times> printed" where
  "run_log cmd =
     (case cmd of LogTail follow _ _ \<Rightarrow>
        if follow then (EXIT_FAILURE, [], [''infmonctl: log tail: waiting for logs (stub)''])
        else stub ''log tail'')"

definition run_health :: "int \<times> printed" where
  "run_health = stub ''health''"

definition run_uninstall :: "cli_world \<Rightarrow> int \<times> printed" where
  "run_uninstall w = (if \<not> cw_root w then needs_root ''uninstall'' else stub ''uninstall'')"

section \<open>Specifications read back\<close>

text \<open>The arguments an operator would write for a rule.\<close>

definition spec_of :: "flow_rule \<Rightarrow> string list" where
  "spec_of r =
     [''name='' @ fr_name r,
      ''fields='' @ join '','' (map field_arg (fr_fields r)),
      ''max_keys='' @ show_nat (unat (fr_max_keys r)),
      ''eviction_policy=lru_drop'']"

lemma split_on_join:
  "ws \<noteq> [] \<Longrightarrow> \<forall>w \<in> set ws. c \<notin> set w \<Longrightarrow> split_on c (join [c] ws) = ws"
  by (induction "[c]" ws rule: join.induct) (auto simp: split_on_plain split_on_append)

lemma field_arg_plain: "CHR '','' \<notin> set (field_arg f)"
  by (cases f) auto

lemma trim_field_arg: "trim (field_arg f) = field_arg f"
  by (cases f) (simp_all add: trim_graphic is_ascii_graphic_def)

lemma field_named_arg: "field_named (field_arg f) = Ok f"
  by (cases f) (simp_all add: field_named_def)

lemma fields_named_args: "fields_named (map field_arg fs) = Ok fs"
  by (induction fs) (simp_all add: trim_field_arg field_named_arg)

lemma fields_text:
  "fs \<noteq> [] \<Longrightarrow> fields_named (split_on (CHR '','') (join '','' (map field_arg fs))) = Ok fs"
  by (subst split_on_join) (auto simp: field_arg_plain fields_named_args)

lemma parse_shown_u32: "parse_u32 (show_nat (unat (k :: u32))) = Ok (unat k)"
  unfolding parse_u32_def by (rule parse_show_nat) (use unat_less_exp [of k] in simp)

lemma split_named_arg:
  "split_once (CHR ''='') (''name='' @ v) = Some (''name'', v)"
  "split_once (CHR ''='') (''fields='' @ v) = Some (''fields'', v)"
  "split_once (CHR ''='') (''max_keys='' @ v) = Some (''max_keys'', v)"
  "split_once (CHR ''='') (''eviction_policy='' @ v) = Some (''eviction_policy'', v)"
  using split_once_append [of "CHR ''=''" "''name''" v] split_once_append [of "CHR ''=''" "''fields''" v]
    split_once_append [of "CHR ''=''" "''max_keys''" v]
    split_once_append [of "CHR ''=''" "''eviction_policy''" v]
  by simp_all

lemma parse_spec_of: "fr_fields r \<noteq> [] \<Longrightarrow> parse_spec (spec_of r) = Ok r"
proof -
  assume ne: "fr_fields r \<noteq> []"
  have policy: "fr_eviction_policy r = LruDrop" by (cases "fr_eviction_policy r")
  have last: "split_once (CHR ''='') ''eviction_policy=lru_drop'' = Some (''eviction_policy'', ''lru_drop'')"
    using split_named_arg(4) [of "''lru_drop''"] by simp
  show ?thesis
    unfolding parse_spec_def spec_of_def spec_args.simps spec_arg_def split_named_arg last
    using ne policy by (simp add: spec_start_def fields_text parse_shown_u32)
qed

text \<open>
  The code is more liberal than the grammar of spec 007, which ends a specification with a
  repeated key with code 2: of several names the last one counts, and field lists add up.
\<close>

lemma repeated_name: "fr_fields r \<noteq> [] \<Longrightarrow> parse_spec ((''name='' @ n) # spec_of r) = Ok r"
proof -
  assume "fr_fields r \<noteq> []"
  then have "parse_spec (spec_of r) = Ok r" by (rule parse_spec_of)
  then show ?thesis
    unfolding parse_spec_def spec_of_def spec_args.simps spec_arg_def split_named_arg
    by (simp add: spec_start_def)
qed

lemma repeated_fields:
  "parse_spec [''name=a'', ''fields=src_ip'', ''fields=src_ip,dscp''] =
     Ok \<lparr> fr_name = ''a'', fr_fields = [SrcIp, SrcIp, Dscp], fr_max_keys = 1024,
          fr_eviction_policy = LruDrop \<rparr>"
  using fields_text [of "[SrcIp]"] fields_text [of "[SrcIp, Dscp]"]
    split_named_arg(1) [of "''a''"] split_named_arg(2) [of "''src_ip''"]
    split_named_arg(2) [of "''src_ip,dscp''"]
  by (simp add: parse_spec_def spec_arg_def spec_start_def)

text \<open>A specification never parses to a rule without fields.\<close>

lemma parse_spec_fields: "parse_spec spec = Ok r \<Longrightarrow> fr_fields r \<noteq> []"
  by (auto simp: parse_spec_def res_simps split: option.splits if_splits)

section \<open>What adding a rule comes to\<close>

lemma add_exit_root: "\<not> cw_root w \<Longrightarrow> run_rule_add w be c spec st = (needs_root ''flow-rule add'', st)"
  by (simp add: run_rule_add_def)

text \<open>The exit code and the frontend's state after \<open>flow-rule add\<close>, connection permitting.\<close>

definition add_verdict ::
    "'b control_backend \<Rightarrow> flow_rule \<Rightarrow> 'b control_state \<Rightarrow> int \<times> 'b control_state \<Rightarrow> bool" where
  "add_verdict be r st res =
     (case res of (code, st') \<Rightarrow>
       if fr_name r \<in> fr_name ` set (cs_flow_rules st) then code = 6 \<and> st' = st
       else case cs_vapi_control st of
         None \<Rightarrow> code = 0 \<and> cs_flow_rules st' = cs_flow_rules st @ [r]
       | Some b \<Rightarrow>
           (case vapi_flow_rule_add be (fr_name r) (fr_fields r) (fr_max_keys r) (fr_eviction_policy r) b of
              (Ok i, b') \<Rightarrow> code = 0 \<and> cs_flow_rules st' = cs_flow_rules st @ [r] \<and>
                cs_rule_id_map st' (fr_name r) = Some i
            | (Err e, b') \<Rightarrow> code = 1 \<and> cs_flow_rules st' = cs_flow_rules st))"

lemma run_rule_add_carried:
  assumes "cw_root w" and "parse_spec spec = Ok r"
    and "carries (cw_wire w) be (cw_pull w) (FlowRuleAdd (params_of r)) st"
  shows "case run_rule_add w be c spec st of ((code, _), st') \<Rightarrow> add_verdict be r st (code, st')"
proof -
  have step: "run_rule_add w be c spec st =
      (case client_flow_rule_add r (cw_wire w) be (cw_pull w) st of
         (Ok i, st') \<Rightarrow>
           ((EXIT_SUCCESS,
             (case effective_output c of
                Json \<Rightarrow> [cw_value w (PAdded i (fr_name r))]
              | Table \<Rightarrow> table_of (PAdded i (fr_name r))), []), st')
       | (Err e, st') \<Rightarrow> (failed_call ''flow-rule add'' e, st'))"
    using assms(1,2) by (simp add: run_rule_add_def)
  show ?thesis
    unfolding step client_add_exact [OF assms(3)]
    by (auto simp: add_verdict_def failed_call_def ctl_error_to_exit_code_def exit_codes added_to_def
        split: option.split sum.split prod.split)
qed

lemma run_rule_add_unconnected:
  assumes "cw_root w" and "parse_spec spec = Ok r"
    and "or_timeout ''connection timed out'' (wi_connect (cw_wire w)) = Err e"
  shows "run_rule_add w be c spec st = (failed_call ''flow-rule add'' (CtlConnect e), st)"
  using assms by (simp add: run_rule_add_def client_flow_rule_add_def call_unconnected)

section \<open>Properties\<close>

text \<open>
  The three numberings of fields agree: the number the control client sends to the backend
  is the discriminant of the identifier the statistics use, the width the configuration gives
  a field is the width the decoder reads, and the command line maps the identifier back to the
  field.
\<close>

theorem field_codes_agree:
  "\<exists>i. field_to_field_id f = Some i \<and> field_id_disc i = field_to_u8 f \<and>
     id_width i = unat (field_width f) \<and> field_id_to_field i = f"
  by (cases f) simp_all

text \<open>
  C35. A flow rule written as command-line arguments, one \<open>key=value\<close> text each, is parsed back
  as that rule, whatever its name, its (non-empty) list of fields and its key limit. This is
  the language the code reads: it takes every value verbatim, while the grammar frozen in spec
  007 restricts bare values to some characters and takes double quotes around others off.
\<close>

theorem spec_roundtrip:
  assumes "fr_fields r \<noteq> []"
  shows "parse_spec (spec_of r) = Ok r"
  using assms by (rule parse_spec_of)

lemma show_4096: "show_nat 4096 = ''4096''"
  by (simp add: show_nat.simps digit_char_def) (code_simp)

theorem spec_roundtrip_witness:
  "parse_spec [''name=dns'', ''fields=src_ip,dst_port'', ''max_keys=4096'', ''eviction_policy=lru_drop''] =
     Ok \<lparr> fr_name = ''dns'', fr_fields = [SrcIp, DstPort], fr_max_keys = 4096,
          fr_eviction_policy = LruDrop \<rparr>"
  using spec_roundtrip [of "\<lparr> fr_name = ''dns'', fr_fields = [SrcIp, DstPort], fr_max_keys = 4096,
          fr_eviction_policy = LruDrop \<rparr>"]
  by (simp add: spec_of_def show_4096)

text \<open>
  C16. \<open>infmonctl flow-rule add\<close>, end to end from the arguments to the frontend's table: without
  root privileges it exits 13, on a specification it cannot parse 2, when the socket cannot be
  reached 4, and none of these changes the frontend. Over a wire that carries the request and
  the response it exits 6 exactly when the name is taken, 1 when the backend refuses the rule,
  and otherwise 0 with the parsed rule at the end of the frontend's table. What parses is what
  the code accepts: a repeated key, for which spec 007 wants code 2, is accepted.
\<close>

theorem add_command_exits:
  assumes "\<And>r. parse_spec spec = Ok r \<Longrightarrow>
    (\<exists>e. or_timeout ''connection timed out'' (wi_connect (cw_wire w)) = Err e) \<or>
    carries (cw_wire w) be (cw_pull w) (FlowRuleAdd (params_of r)) st"
  shows "case run_rule_add w be c spec st of ((code, _), st') \<Rightarrow>
    (if \<not> cw_root w then code = 13 \<and> st' = st
     else case parse_spec spec of
       Err m \<Rightarrow> code = 2 \<and> st' = st
     | Ok r \<Rightarrow>
         (case or_timeout ''connection timed out'' (wi_connect (cw_wire w)) of
            Err e \<Rightarrow> code = 4 \<and> st' = st
          | Ok _ \<Rightarrow> add_verdict be r st (code, st')))"
proof (cases "cw_root w")
  case root: True
  show ?thesis
  proof (cases "parse_spec spec")
    case (Inl m)
    then show ?thesis using root by (simp add: run_rule_add_def exit_codes)
  next
    case (Inr r)
    show ?thesis
    proof (cases "or_timeout ''connection timed out'' (wi_connect (cw_wire w))")
      case (Inl e)
      then show ?thesis
        using root Inr run_rule_add_unconnected [OF root Inr Inl, of be c st]
        by (simp add: failed_call_def ctl_error_to_exit_code_def exit_codes)
    next
      case up: (Inr u)
      then have "carries (cw_wire w) be (cw_pull w) (FlowRuleAdd (params_of r)) st"
        using assms [OF Inr] by auto
      from run_rule_add_carried [OF root Inr this, of c] show ?thesis using root Inr up by auto
    qed
  qed
next
  case False
  then show ?thesis by (simp add: add_exit_root needs_root_def exit_codes)
qed

text \<open>A wire that carries the one exchange of a sample session.\<close>

definition sample_def :: flow_rule where
  "sample_def =
     \<lparr> fr_name = ''dns'', fr_fields = [SrcIp, DstPort], fr_max_keys = 4096, fr_eviction_policy = LruDrop \<rparr>"

definition sample_response :: response where
  "sample_response = response_ok (RFlowRuleId \<lparr> idd_id = hex16 1 @ ''-'' @ hex16 0 \<rparr>)"

definition sample_wire :: wire where
  "sample_wire =
     \<lparr> wi_connect = Some (Ok ()), wi_write = Some (Ok ()), wi_receive = Some (Ok ()),
       wi_text = (\<lambda>_. Ok ''q''),
       wi_json = \<lparr> js_utf8 = (\<lambda>_. True), js_parse = (\<lambda>_. Ok (FlowRuleAdd (params_of sample_def))) \<rparr>,
       wi_reply = (\<lambda>_. Some ''r''), wi_read = (\<lambda>_. Ok sample_response) \<rparr>"

definition sample_cli_world :: cli_world where
  "sample_cli_world =
     \<lparr> cw_root = True, cw_wire = sample_wire, cw_pull = \<lparr> pw_reply_to = 0, pw_answer = None \<rparr>,
       cw_value = (\<lambda>_. []), cw_render = (\<lambda>_ _. Ok []), cw_cmd = (\<lambda>_ _. Err []) \<rparr>"

definition sample_cli :: cli where
  "sample_cli =
     \<lparr> cl_command = StatusCmd, cl_output = Table, cl_json = False, cl_compact = False,
       cl_raw_bytes = False, cl_config = [], cl_socket = [], cl_timeout = 5, cl_no_color = False,
       cl_quiet = False, cl_verbose = 0 \<rparr>"

lemma sample_carries:
  "carries sample_wire counting_backend pw (FlowRuleAdd (params_of sample_def)) (control_new [])"
  by (simp add: carries_def wire_up_def carries_request_def carries_response_def sample_wire_def
      MAX_LINE_def MAX_RESPONSE_def handle_request_def handle_flow_rule_add_def control_new_def
      params_of_def Let_def sample_response_def)

theorem add_command_exits_witness:
  "case run_rule_add sample_cli_world counting_backend sample_cli (spec_of sample_def) (control_new []) of
     ((code, _), st') \<Rightarrow> code = 0 \<and> cs_flow_rules st' = [sample_def]"
proof -
  have parse: "parse_spec (spec_of sample_def) = Ok sample_def"
    by (rule parse_spec_of) (simp add: sample_def_def)
  have up: "or_timeout ''connection timed out'' (wi_connect (cw_wire sample_cli_world)) = Ok ()"
    by (simp add: or_timeout_def sample_cli_world_def sample_wire_def)
  have root: "cw_root sample_cli_world" by (simp add: sample_cli_world_def)
  have wire: "carries (cw_wire sample_cli_world) counting_backend (cw_pull sample_cli_world)
      (FlowRuleAdd (params_of r)) (control_new [])" if "parse_spec (spec_of sample_def) = Ok r" for r
    using that parse sample_carries by (simp add: sample_cli_world_def)
  note verdict = add_command_exits [of "spec_of sample_def" sample_cli_world counting_backend
      "control_new []" sample_cli, OF disjI2, OF wire]
  show ?thesis
    using verdict by (auto simp: root parse up add_verdict_def control_new_def split: prod.splits)
qed

end
