(* ===== verification/Install.thy ===== *)
theory Install
  imports Cli Validate
begin

text \<open>
  The installer and the dispatch of \<open>infmonctl\<close>, \<open>src/cli/src/main.rs\<close>: \<open>run_install\<close> with the
  files and programs it touches as a list of actions, the creation of the system user, and
  \<open>run\<close>, which sends every command to its implementation. The answers of the file system and
  of the programs are inputs.
\<close>

section \<open>Actions\<close>

text \<open>A write that fails leaves the file in a state that is not known.\<close>

datatype action =
    MakeDir string
  | WriteFile string string
  | WriteFailed string
  | SetMode string nat
  | RunCmd string "string list"
  | Say string

record install_world =
  iw_root :: bool
  iw_cmd :: "string \<Rightarrow> string list \<Rightarrow> string + command_output"
  iw_mkdir :: "string \<Rightarrow> string + unit"
  iw_write :: "string \<Rightarrow> string + unit"
  iw_chmod :: "string \<Rightarrow> string + unit"
  iw_exists :: "string \<Rightarrow> bool"
  iw_read :: "string \<Rightarrow> string option"
  iw_beside_exe :: "string option"
  iw_yaml :: "config \<Rightarrow> string + string"

text \<open>A step: what it did, and the code it returns early with, if it does.\<close>

type_synonym step = "action list \<times> int option"

definition then_do :: "step \<Rightarrow> step \<Rightarrow> step" where
  "then_do a b =
     (case a of (acts, Some code) \<Rightarrow> (acts, Some code)
      | (acts, None) \<Rightarrow> (case b of (acts', r) \<Rightarrow> (acts @ acts', r)))"

fun all_steps :: "step list \<Rightarrow> step" where
  "all_steps [] = ([], None)"
| "all_steps (s # ss) = then_do s (all_steps ss)"

section \<open>Steps\<close>

definition USERADD_ARGS :: "string list" where
  "USERADD_ARGS = [''--system'', ''--no-create-home'', ''--shell'', ''/usr/sbin/nologin'', ''infmon'']"

definition ensure_system_user :: "install_world \<Rightarrow> step" where
  "ensure_system_user w =
     (let known = (case iw_cmd w ''id'' [''infmon''] of Ok out \<Rightarrow> co_success out | Err _ \<Rightarrow> False)
      in if known then ([RunCmd ''id'' [''infmon'']], None)
         else
           let acts = [RunCmd ''id'' [''infmon''], RunCmd ''useradd'' USERADD_ARGS]
           in case iw_cmd w ''useradd'' USERADD_ARGS of
                Ok out \<Rightarrow>
                  if co_success out then (acts, None)
                  else (acts @ [Say (''infmonctl: install: failed to create user '' @ quoted ''infmon'' @ '': '' @
                                trim (co_stderr out))], Some EXIT_FAILURE)
              | Err e \<Rightarrow>
                  (acts @ [Say (''infmonctl: install: failed to run useradd: '' @ e)], Some EXIT_FAILURE))"

definition make_dir :: "install_world \<Rightarrow> string \<Rightarrow> step" where
  "make_dir w dir =
     (case iw_mkdir w dir of
        Ok _ \<Rightarrow> ([MakeDir dir], None)
      | Err e \<Rightarrow> ([MakeDir dir, Say (''infmonctl: install: failed to create '' @ dir @ '': '' @ e)],
                   Some EXIT_FAILURE))"

text \<open>A program whose failure is only warned about.\<close>

definition try_cmd :: "install_world \<Rightarrow> string \<Rightarrow> string list \<Rightarrow> string \<Rightarrow> (string \<Rightarrow> string) \<Rightarrow> step" where
  "try_cmd w prog args failed_msg error_msg =
     (RunCmd prog args #
      (case iw_cmd w prog args of
         Ok out \<Rightarrow> if \<not> co_success out then [Say (''infmonctl: install: warning: '' @ failed_msg)] else []
       | Err e \<Rightarrow> [Say (''infmonctl: install: warning: '' @ error_msg e)]), None)"

definition chown_step :: "install_world \<Rightarrow> string \<Rightarrow> string \<Rightarrow> step" where
  "chown_step w who path =
     try_cmd w ''chown'' [who, path]
       (''failed to chown '' @ path @ '' to '' @ who) (\<lambda>e. ''chown '' @ path @ '': '' @ e)"

definition write_file :: "install_world \<Rightarrow> string \<Rightarrow> string \<Rightarrow> step" where
  "write_file w path content =
     (case iw_write w path of
        Ok _ \<Rightarrow> ([WriteFile path content], None)
      | Err e \<Rightarrow> ([WriteFailed path, Say (''infmonctl: install: failed to write '' @ path @ '': '' @ e)],
                   Some EXIT_FAILURE))"

definition set_mode :: "install_world \<Rightarrow> string \<Rightarrow> nat \<Rightarrow> step" where
  "set_mode w path mode =
     (SetMode path mode #
      (case iw_chmod w path of
         Ok _ \<Rightarrow> []
       | Err e \<Rightarrow> [Say (''infmonctl: install: warning: failed to set permissions on '' @ path @ '': '' @ e)]),
      None)"

definition CONFIG_DIR :: string where
  "CONFIG_DIR = ''/etc/infmon''"

definition CONFIG_PATH :: string where
  "CONFIG_PATH = ''/etc/infmon/config.yaml''"

definition default_config :: config where
  "default_config =
     \<lparr> cfg_frontend = Some default_frontend_config, cfg_flow_rules = [], cfg_exporters = None,
       cfg_logging = None \<rparr>"

definition CONFIG_HEADER :: string where
  "CONFIG_HEADER =
     ''# InFMon default configuration'' @ newline @
     ''# See https://github.com/r12f/InFMon for documentation'' @ newline @ newline"

definition config_step :: "install_world \<Rightarrow> bool \<Rightarrow> step" where
  "config_step w force =
     (if iw_exists w CONFIG_PATH \<and> \<not> force
      then ([Say (''infmonctl: install: skipping config (already exists at '' @ CONFIG_PATH @
                  ''; use --force to overwrite)'')], None)
      else case iw_yaml w default_config of
        Ok yaml \<Rightarrow>
          all_steps [write_file w CONFIG_PATH (CONFIG_HEADER @ yaml),
                     set_mode w CONFIG_PATH 416,
                     chown_step w ''root:infmon'' CONFIG_PATH]
      | Err e \<Rightarrow> ([Say (''infmonctl: install: failed to serialize default config: '' @ e)], Some EXIT_FAILURE))"

definition SERVICE_SRC :: string where
  "SERVICE_SRC = ''/usr/share/infmon/infmon.service''"

definition SERVICE_DST :: string where
  "SERVICE_DST = ''/etc/systemd/system/infmon.service''"

definition service_content :: "install_world \<Rightarrow> string option" where
  "service_content w =
     (if iw_exists w SERVICE_SRC then iw_read w SERVICE_SRC
      else Option.bind (iw_beside_exe w) (iw_read w))"

definition service_step :: "install_world \<Rightarrow> bool \<Rightarrow> step" where
  "service_step w force =
     (case service_content w of
        Some content \<Rightarrow>
          if iw_exists w SERVICE_DST \<and> \<not> force
          then ([Say (''infmonctl: install: service unit already exists at '' @ SERVICE_DST @
                      ''; use --force to overwrite'')], None)
          else then_do (write_file w SERVICE_DST content)
                 (try_cmd w ''systemctl'' [''daemon-reload'']
                   (''systemctl daemon-reload failed; the new unit file may not be recognized '' @
                    ''until a manual reload'')
                   (\<lambda>e. ''daemon-reload: '' @ e))
      | None \<Rightarrow>
          ([Say (''infmonctl: install: systemd unit file not found; skipping service installation '' @
                 ''(you can install it manually)'')], None))"

definition state_dir :: "install_world \<Rightarrow> string \<Rightarrow> step" where
  "state_dir w dir = then_do (make_dir w dir) (chown_step w ''infmon:infmon'' dir)"

definition run_install :: "install_world \<Rightarrow> bool \<Rightarrow> action list \<times> int" where
  "run_install w force =
     (if \<not> iw_root w
      then ([Say ''infmonctl: install requires root privileges''], EXIT_PERMISSION_DENIED)
      else case all_steps
          [ensure_system_user w, make_dir w CONFIG_DIR, config_step w force,
           state_dir w ''/var/lib/infmon'', state_dir w ''/run/infmon'', service_step w force]
        of (acts, Some code) \<Rightarrow> (acts, code)
         | (acts, None) \<Rightarrow> (acts @ [Say ''infmonctl: install: completed successfully''], EXIT_SUCCESS))"

section \<open>Dispatch\<close>

text \<open>The standard streams of an installation: it only writes to standard error.\<close>

definition said :: "action list \<Rightarrow> string list" where
  "said acts = List.map_filter (\<lambda>a. case a of Say s \<Rightarrow> Some s | _ \<Rightarrow> None) acts"

definition run ::
    "install_world \<Rightarrow> cli_world \<Rightarrow> 'b control_backend \<Rightarrow> cli \<Rightarrow> 'b control_state \<Rightarrow> 'b ran" where
  "run iw w be c st =
     (case cl_command c of
        Install force \<Rightarrow> (case run_install iw force of (acts, code) \<Rightarrow> ((code, [], said acts), st))
      | Uninstall _ \<Rightarrow> (run_uninstall w, st)
      | StartCmd \<Rightarrow> (run_lifecycle w ''start'', st)
      | StopCmd \<Rightarrow> (run_lifecycle w ''stop'', st)
      | RestartCmd \<Rightarrow> (run_lifecycle w ''restart'', st)
      | StatusCmd \<Rightarrow> run_status w be c st
      | ConfigCmd cmd \<Rightarrow> (run_config w cmd, st)
      | FlowRuleCmd cmd \<Rightarrow> run_flow_rule w be c cmd st
      | FlowCmd cmd \<Rightarrow> (run_flow cmd, st)
      | StatsCmd cmd \<Rightarrow> run_stats w be c cmd st
      | LogCmd cmd \<Rightarrow> (run_log cmd, st)
      | HealthCmd \<Rightarrow> (run_health, st))"

text \<open>
  The build-time helpers the program looks for among its arguments before it parses them, with
  clap's generators as questions: is the shell supported, does rendering the manual page
  succeed, does flushing the output succeed. The exit code and the lines of standard error.
\<close>

definition completions_exit ::
    "(string \<Rightarrow> bool) \<Rightarrow> string + unit \<Rightarrow> string \<Rightarrow> int \<times> string list" where
  "completions_exit supported flushed shell =
     (if \<not> supported shell then (EXIT_USAGE, [''infmonctl: unsupported shell: '' @ shell])
      else case flushed of
        Err e \<Rightarrow> (EXIT_FAILURE, [''infmonctl: failed to write completions: '' @ e])
      | Ok _ \<Rightarrow> (EXIT_SUCCESS, []))"

definition manpage_exit :: "string + unit \<Rightarrow> string + unit \<Rightarrow> int \<times> string list" where
  "manpage_exit rendered flushed =
     (case rendered of
        Err e \<Rightarrow> (EXIT_FAILURE, [''infmonctl: failed to generate man page: '' @ e])
      | Ok _ \<Rightarrow>
          (case flushed of
             Err e \<Rightarrow> (EXIT_FAILURE, [''infmonctl: failed to flush man page output: '' @ e])
           | Ok _ \<Rightarrow> (EXIT_SUCCESS, [])))"

definition COMPLETIONS_FLAG :: string where
  "COMPLETIONS_FLAG = ''--generate-completions=''"

text \<open>\<open>trim_start_matches\<close> takes the flag off as often as it occurs.\<close>

function trim_flag :: "string \<Rightarrow> string" where
  "trim_flag s = (case strip_prefix COMPLETIONS_FLAG s of None \<Rightarrow> s | Some t \<Rightarrow> trim_flag t)"
  by pat_completeness auto
termination
  by (relation "measure length") (auto simp: strip_prefix_Some COMPLETIONS_FLAG_def)

declare trim_flag.simps [simp del]

fun early_exit ::
    "(string \<Rightarrow> bool) \<Rightarrow> string + unit \<Rightarrow> string + unit \<Rightarrow> string list \<Rightarrow> (int \<times> string list) option" where
  "early_exit supported rendered flushed [] = None"
| "early_exit supported rendered flushed (arg # rest) =
     (if arg = ''--generate-completions'' then
        Some (case rest of
            [] \<Rightarrow> (EXIT_USAGE, [''infmonctl: --generate-completions requires a shell argument''])
          | shell # _ \<Rightarrow> completions_exit supported flushed shell)
      else if strip_prefix COMPLETIONS_FLAG arg \<noteq> None then
        Some (completions_exit supported flushed (trim_flag arg))
      else if arg = ''--generate-manpage'' then Some (manpage_exit rendered flushed)
      else early_exit supported rendered flushed rest)"

section \<open>What an installation writes\<close>

text \<open>The contents written to a path, one for each write that succeeded.\<close>

definition written :: "string \<Rightarrow> action list \<Rightarrow> string list" where
  "written path acts =
     List.map_filter (\<lambda>a. case a of WriteFile p c \<Rightarrow> if p = path then Some c else None | _ \<Rightarrow> None) acts"

lemma written_simps [simp]:
  "written p [] = []"
  "written p (MakeDir d # acts) = written p acts"
  "written p (SetMode d n # acts) = written p acts"
  "written p (RunCmd c as # acts) = written p acts"
  "written p (Say t # acts) = written p acts"
  "written p (WriteFailed q # acts) = written p acts"
  "written p (WriteFile q c # acts) = (if p = q then [c] else []) @ written p acts"
  "written p (acts @ acts') = written p acts @ written p acts'"
  by (auto simp: written_def List.map_filter_def)

text \<open>A step either goes on or ends with the failure code.\<close>

definition step_ok :: "step \<Rightarrow> bool" where
  "step_ok s \<longleftrightarrow> snd s = None \<or> snd s = Some EXIT_FAILURE"

definition step_writes :: "string \<Rightarrow> step \<Rightarrow> string list" where
  "step_writes p s = written p (fst s)"

lemma step_pair [simp]:
  "step_ok (acts, None)" "step_ok (acts, Some EXIT_FAILURE)" "step_writes p (acts, r) = written p acts"
  by (simp_all add: step_ok_def step_writes_def)

lemmas step_defs =
  step_ok_def step_writes_def ensure_system_user_def make_dir_def try_cmd_def chown_step_def
  write_file_def set_mode_def then_do_def Let_def

lemma then_do_ok: "step_ok a \<Longrightarrow> step_ok b \<Longrightarrow> step_ok (then_do a b)"
  by (auto simp: step_ok_def then_do_def split: prod.splits option.splits)

lemma all_steps_ok: "list_all step_ok ss \<Longrightarrow> step_ok (all_steps ss)"
  by (induction ss) (simp_all add: then_do_ok)

lemma basic_steps_ok [simp]:
  "step_ok (ensure_system_user w)" "step_ok (make_dir w d)" "step_ok (try_cmd w c as f e)"
  "step_ok (chown_step w who d)" "step_ok (write_file w q t)" "step_ok (set_mode w q n)"
  by (auto simp: step_defs split: sum.splits)

lemma install_steps_ok [simp]:
  "step_ok (state_dir w d)" "step_ok (service_step w force)" "step_ok (config_step w force)"
proof -
  show "step_ok (state_dir w d)" by (simp add: state_dir_def then_do_ok)
  show "step_ok (service_step w force)"
    by (simp add: service_step_def then_do_ok split: option.split)
  show "step_ok (config_step w force)"
    by (simp add: config_step_def then_do_ok split: sum.split)
qed

lemma then_do_writes:
  "step_writes p (then_do a b) = step_writes p a @ (if snd a = None then step_writes p b else [])"
  by (auto simp: step_writes_def then_do_def split: prod.splits option.splits)

lemma then_do_None: "snd (then_do a b) = None \<longleftrightarrow> snd a = None \<and> snd b = None"
  by (auto simp: then_do_def split: prod.splits option.splits)

lemma basic_steps_write [simp]:
  "step_writes p (ensure_system_user w) = []" "step_writes p (make_dir w d) = []"
  "step_writes p (try_cmd w c as f e) = []" "step_writes p (chown_step w who d) = []"
  "step_writes p (set_mode w q n) = []"
  "step_writes p (write_file w q t) = (if p = q \<and> iw_write w q = Ok () then [t] else [])"
  by (auto simp: step_defs split: sum.splits)

text \<open>When each step goes on.\<close>

definition user_ready :: "install_world \<Rightarrow> bool" where
  "user_ready w \<longleftrightarrow>
     (\<exists>out. iw_cmd w ''id'' [''infmon''] = Ok out \<and> co_success out) \<or>
     (\<exists>out. iw_cmd w ''useradd'' USERADD_ARGS = Ok out \<and> co_success out)"

lemma basic_steps_None [simp]:
  "snd (ensure_system_user w) = None \<longleftrightarrow> user_ready w"
  "snd (make_dir w d) = None \<longleftrightarrow> iw_mkdir w d = Ok ()"
  "snd (write_file w q t) = None \<longleftrightarrow> iw_write w q = Ok ()"
  "snd (try_cmd w c as f e) = None" "snd (chown_step w who d) = None" "snd (set_mode w q n) = None"
  by (auto simp: step_defs user_ready_def split: sum.splits)

lemma state_dir_step [simp]:
  "step_writes p (state_dir w d) = []" "snd (state_dir w d) = None \<longleftrightarrow> iw_mkdir w d = Ok ()"
  by (simp_all add: state_dir_def then_do_writes then_do_None)

text \<open>The content that is due at the path of the unit, and at that of the configuration.\<close>

definition service_due :: "install_world \<Rightarrow> bool \<Rightarrow> string option" where
  "service_due w force = (if iw_exists w SERVICE_DST \<and> \<not> force then None else service_content w)"

definition config_due :: "install_world \<Rightarrow> bool \<Rightarrow> bool" where
  "config_due w force \<longleftrightarrow> \<not> iw_exists w CONFIG_PATH \<or> force"

lemma service_step_done:
  "snd (service_step w force) = None \<longleftrightarrow> service_due w force = None \<or> iw_write w SERVICE_DST = Ok ()"
  "step_writes p (service_step w force) =
     (case service_due w force of
        Some c \<Rightarrow> if p = SERVICE_DST \<and> iw_write w SERVICE_DST = Ok () then [c] else []
      | None \<Rightarrow> [])"
  by (auto simp: service_step_def service_due_def then_do_writes then_do_None split: option.split)

lemma config_step_done:
  "snd (config_step w force) = None \<longleftrightarrow>
     (config_due w force \<longrightarrow> (\<exists>yaml. iw_yaml w default_config = Ok yaml) \<and> iw_write w CONFIG_PATH = Ok ())"
  "step_writes p (config_step w force) =
     (if p = CONFIG_PATH \<and> config_due w force \<and> iw_write w CONFIG_PATH = Ok ()
      then (case iw_yaml w default_config of Ok yaml \<Rightarrow> [CONFIG_HEADER @ yaml] | Err e \<Rightarrow> []) else [])"
  by (auto simp: config_step_def config_due_def then_do_writes then_do_None split: sum.split)

lemma parse_5s: "parse_duration_str ''5s'' = Some 5000"
  by (simp add: parse_duration_str_def Let_def trim_graphic is_ascii_graphic_def strip_suffix_def
      suffix_to_prefix parse_u64_def from_str_radix_def to_digit_def u64_of_text_def)

lemma default_config_ok: "config_ok default_config"
  by (simp add: config_ok_def default_config_def frontend_ok_def default_frontend_config_def
      rules_ok_def positive_duration_def parse_5s)

definition install_steps :: "install_world \<Rightarrow> bool \<Rightarrow> step" where
  "install_steps w force = all_steps
     [ensure_system_user w, make_dir w CONFIG_DIR, config_step w force,
      state_dir w ''/var/lib/infmon'', state_dir w ''/run/infmon'', service_step w force]"

lemma install_steps_step_ok: "step_ok (install_steps w force)"
  by (simp add: install_steps_def then_do_ok)

text \<open>Whether the configuration's turn comes, and whether everything succeeds.\<close>

definition config_turn :: "install_world \<Rightarrow> bool" where
  "config_turn w \<longleftrightarrow> user_ready w \<and> iw_mkdir w CONFIG_DIR = Ok ()"

definition installs :: "install_world \<Rightarrow> bool \<Rightarrow> bool" where
  "installs w force \<longleftrightarrow> config_turn w \<and>
     (config_due w force \<longrightarrow> (\<exists>yaml. iw_yaml w default_config = Ok yaml) \<and> iw_write w CONFIG_PATH = Ok ()) \<and>
     iw_mkdir w ''/var/lib/infmon'' = Ok () \<and> iw_mkdir w ''/run/infmon'' = Ok () \<and>
     (service_due w force = None \<or> iw_write w SERVICE_DST = Ok ())"

lemma install_steps_None: "snd (install_steps w force) = None \<longleftrightarrow> installs w force"
  by (auto simp: install_steps_def then_do_None config_step_done service_step_done installs_def config_turn_def)

lemma install_steps_writes:
  "step_writes CONFIG_PATH (install_steps w force) =
     (if config_turn w then step_writes CONFIG_PATH (config_step w force) else [])"
  "step_writes SERVICE_DST (install_steps w force) =
     (if installs w force then step_writes SERVICE_DST (service_step w force) else [])"
  "p \<noteq> CONFIG_PATH \<Longrightarrow> p \<noteq> SERVICE_DST \<Longrightarrow> step_writes p (install_steps w force) = []"
  by (auto simp: install_steps_def then_do_writes config_step_done service_step_done config_turn_def
      installs_def CONFIG_PATH_def SERVICE_DST_def split: option.split)

section \<open>Properties\<close>

text \<open>
  C36. What \<open>infmonctl install\<close> exits with and which files it writes, while its standard error
  can be written. Without root privileges it exits 13 and touches nothing. Otherwise it exits 0
  exactly when the user exists or is created, the three directories can be made, and every
  write that is due succeeds, and 1 in every other case. The configuration is due when there is
  none or with force: then, once the user and its directory are there, it is written once, as
  the rendering of the default configuration under its header, and an existing one is never
  touched without force. The unit file is written last, once, and only in a run that succeeds;
  no other file is written. The default configuration is one that validation accepts.
\<close>

theorem install_exact:
  "(case run_install w force of (acts, code) \<Rightarrow>
     if \<not> iw_root w then code = 13 \<and> acts = [Say ''infmonctl: install requires root privileges'']
     else code = (if installs w force then 0 else 1) \<and>
       written CONFIG_PATH acts =
         (if config_turn w \<and> config_due w force \<and> iw_write w CONFIG_PATH = Ok ()
          then (case iw_yaml w default_config of Ok yaml \<Rightarrow> [CONFIG_HEADER @ yaml] | Err e \<Rightarrow> [])
          else []) \<and>
       written SERVICE_DST acts =
         (if installs w force then (case service_due w force of Some c \<Rightarrow> [c] | None \<Rightarrow> []) else []) \<and>
       (\<forall>p. p = CONFIG_PATH \<or> p = SERVICE_DST \<or> written p acts = [])) \<and>
   validate_config default_config = Ok ()"
proof -
  have valid: "validate_config default_config = Ok ()"
    using default_config_ok by (simp add: validate_config_iff_config_ok)
  obtain acts r where steps: "install_steps w force = (acts, r)" by fastforce
  have run: "run_install w force =
      (if \<not> iw_root w then ([Say ''infmonctl: install requires root privileges''], EXIT_PERMISSION_DENIED)
       else case r of
         Some code \<Rightarrow> (acts, code)
       | None \<Rightarrow> (acts @ [Say ''infmonctl: install: completed successfully''], EXIT_SUCCESS))"
    using steps by (simp add: run_install_def install_steps_def split: option.split)
  have r: "r = (if installs w force then None else Some EXIT_FAILURE)"
    using install_steps_step_ok [of w force] install_steps_None [of w force] by (auto simp: steps step_ok_def)
  have writes: "written p acts = step_writes p (install_steps w force)" for p by (simp add: steps)
  have service: "step_writes SERVICE_DST (service_step w force) =
      (case service_due w force of Some c \<Rightarrow> [c] | None \<Rightarrow> [])" if "installs w force"
    using that by (auto simp: service_step_done installs_def split: option.split)
  have others: "p = CONFIG_PATH \<or> p = SERVICE_DST \<or> step_writes p (install_steps w force) = []" for p
    using install_steps_writes(3) by blast
  show ?thesis
    using valid service others
    by (auto simp: run r writes install_steps_writes config_step_done exit_codes)
qed

end
