(* ===== verification/CliMain.thy ===== *)
theory CliMain
  imports Install
begin

text \<open>
  The process \<open>infmonctl\<close>, \<open>main\<close> of \<open>src/cli/src/main.rs\<close>: the build-time helpers, the
  parsing of arguments, the trace filter, the runtime with its two signal tasks, and the exit
  code. Clap's parsing, the operating system's answers and the moment a signal is seen are
  inputs. The client of the control socket is made from the arguments.
\<close>

section \<open>The client of a command\<close>

record control_client =
  cc_socket_path :: string
  cc_timeout :: u64

definition DEFAULT_TIMEOUT :: u64 where
  "DEFAULT_TIMEOUT = 5"

definition client_new :: "string \<Rightarrow> control_client" where
  "client_new path = \<lparr> cc_socket_path = path, cc_timeout = DEFAULT_TIMEOUT \<rparr>"

definition client_with_timeout :: "string \<Rightarrow> u64 \<Rightarrow> control_client" where
  "client_with_timeout path timeout = \<lparr> cc_socket_path = path, cc_timeout = timeout \<rparr>"

definition make_client :: "cli \<Rightarrow> control_client" where
  "make_client c = client_with_timeout (cl_socket c) (cl_timeout c)"

section \<open>The process\<close>

datatype os_signal = Sigint | Sigterm

fun signal_code :: "os_signal \<Rightarrow> int" where
  "signal_code Sigint = EXIT_SIGINT"
| "signal_code Sigterm = EXIT_SIGTERM"

text \<open>
  \<open>mw_parse\<close> is clap: the parsed arguments, or the code it exits with. \<open>mw_env_filter\<close> is a
  valid \<open>RUST_LOG\<close>. \<open>mw_signal\<close> is the first signal a signal task sees while the command waits,
  if one does, and \<open>mw_request_done\<close> whether the frontend has then handled the command's
  request; \<open>mw_said\<close> is how many lines an installation had then said. \<open>mw_stdout\<close> and
  \<open>mw_stderr\<close> are how many lines can be printed before the reader of that stream is gone, if it
  goes; \<open>SIGPIPE\<close> is ignored, so the next print fails. \<open>mw_wire\<close> is the connection a client
  gets.
\<close>

record main_world =
  mw_shell :: "string \<Rightarrow> bool"
  mw_rendered :: "string + unit"
  mw_flushed :: "string + unit"
  mw_parse :: "string list \<Rightarrow> int + cli"
  mw_env_filter :: "string option"
  mw_runtime :: "string + unit"
  mw_handlers :: bool
  mw_signal :: "os_signal option"
  mw_request_done :: bool
  mw_said :: nat
  mw_stdout :: "nat option"
  mw_stderr :: "nat option"
  mw_euid :: nat
  mw_install :: install_world
  mw_host :: cli_world
  mw_wire :: "control_client \<Rightarrow> wire"

definition is_root :: "main_world \<Rightarrow> bool" where
  "is_root mw \<longleftrightarrow> mw_euid mw = 0"

text \<open>What a command of these arguments finds around it.\<close>

definition command_host :: "main_world \<Rightarrow> cli \<Rightarrow> cli_world" where
  "command_host mw c = (mw_host mw)\<lparr> cw_root := is_root mw, cw_wire := mw_wire mw (make_client c) \<rparr>"

definition install_host :: "main_world \<Rightarrow> install_world" where
  "install_host mw = (mw_install mw)\<lparr> iw_root := is_root mw \<rparr>"

lemma host_simps [simp]:
  "cw_root (command_host mw c) = is_root mw" "cw_wire (command_host mw c) = mw_wire mw (make_client c)"
  "cw_pull (command_host mw c) = cw_pull (mw_host mw)" "iw_root (install_host mw) = is_root mw"
  by (simp_all add: command_host_def install_host_def)

text \<open>The filter of the trace subscriber, if one is installed.\<close>

definition trace_filter :: "string option \<Rightarrow> u8 \<Rightarrow> string option" where
  "trace_filter env verbose =
     (if 0 < verbose then
        Some (case env of
            Some f \<Rightarrow> f
          | None \<Rightarrow> if verbose = 1 then ''INFO'' else if verbose = 2 then ''DEBUG'' else ''TRACE'')
      else None)"

text \<open>
  A panic of the main thread exits with this code. \<open>println!\<close> and \<open>eprintln!\<close> panic when they
  cannot write, and so does \<open>expect\<close> on a failure.
\<close>

definition PANIC_CODE :: int where
  "PANIC_CODE = 101"

text \<open>The lines that reach the reader of a stream, and whether the next one panicked.\<close>

definition print_lines :: "nat option \<Rightarrow> string list \<Rightarrow> string list \<times> bool" where
  "print_lines reader ls =
     (case reader of
        Some k \<Rightarrow> if k < length ls then (take k ls, True) else (ls, False)
      | None \<Rightarrow> (ls, False))"

text \<open>
  How a command ends that says \<open>err\<close> on standard error and then prints \<open>out\<close>; none does it the
  other way round. The lines the panic itself writes are left out.
\<close>

definition print_both :: "main_world \<Rightarrow> int \<times> printed \<Rightarrow> int \<times> printed" where
  "print_both mw r =
     (case r of (code, out, err) \<Rightarrow>
        (case print_lines (mw_stderr mw) err of
           (err', True) \<Rightarrow> (PANIC_CODE, [], err')
         | (err', False) \<Rightarrow>
             (case print_lines (mw_stdout mw) out of
                (out', panicked) \<Rightarrow> (if panicked then PANIC_CODE else code, out', err'))))"

text \<open>
  The signal tasks share the runtime's one thread with the command, so they see a signal only
  while the command waits: for the socket, for a program, or in \<open>log tail --follow\<close>.
\<close>

definition may_wait :: "main_world \<Rightarrow> cli \<Rightarrow> bool" where
  "may_wait mw c =
     (case cl_command c of
        Install _ \<Rightarrow> is_root mw
      | StartCmd \<Rightarrow> is_root mw
      | StopCmd \<Rightarrow> is_root mw
      | RestartCmd \<Rightarrow> is_root mw
      | StatusCmd \<Rightarrow> True
      | FlowRuleCmd cmd \<Rightarrow>
          (case cmd of
             RuleAdd spec \<Rightarrow> is_root mw \<and> (case parse_spec spec of Ok _ \<Rightarrow> True | Err _ \<Rightarrow> False)
           | RuleRm _ rm_all \<Rightarrow> is_root mw \<and> \<not> rm_all
           | _ \<Rightarrow> True)
      | StatsCmd cmd \<Rightarrow> (case cmd of StatsExport _ \<Rightarrow> False | _ \<Rightarrow> True)
      | LogCmd cmd \<Rightarrow> (case cmd of LogTail follow _ _ \<Rightarrow> follow)
      | _ \<Rightarrow> False)"

definition interruption :: "main_world \<Rightarrow> cli \<Rightarrow> os_signal option" where
  "interruption mw c = (if may_wait mw c then mw_signal mw else None)"

text \<open>The lines of standard error a command has said before it waits where a signal can be seen.\<close>

definition said_before :: "main_world \<Rightarrow> cli \<Rightarrow> nat" where
  "said_before mw c =
     (case cl_command c of
        Install _ \<Rightarrow> mw_said mw
      | StatsCmd cmd \<Rightarrow> length (stats_notes cmd)
      | LogCmd _ \<Rightarrow> 1
      | _ \<Rightarrow> 0)"

record 'b ended =
  en_code :: int
  en_filter :: "string option"
  en_out :: "string list"
  en_err :: "string list"
  en_state :: "'b control_state"

text \<open>
  The future the runtime runs: the signal handlers, and the command, which may panic on a line
  before its first wait (and then has asked nothing of the frontend), be interrupted in a
  wait, or print to its end.
\<close>

definition block_on ::
    "main_world \<Rightarrow> 'b control_backend \<Rightarrow> cli \<Rightarrow> 'b control_state \<Rightarrow> (int \<times> printed) \<times> 'b control_state" where
  "block_on mw be c st =
     (if \<not> mw_handlers mw then ((PANIC_CODE, [], []), st)
      else case run (install_host mw) (command_host mw c) be c st of
        ((code, out, err), st') \<Rightarrow>
          (case print_lines (mw_stderr mw) (take (said_before mw c) err) of
             (heard, True) \<Rightarrow> ((PANIC_CODE, [], heard), st)
           | (heard, False) \<Rightarrow>
               (case interruption mw c of
                  Some s \<Rightarrow> ((signal_code s, [], heard), if mw_request_done mw then st' else st)
                | None \<Rightarrow> (print_both mw (code, out, err), st'))))"

definition ends_with ::
    "string option \<Rightarrow> 'b control_state \<Rightarrow> int \<times> printed \<Rightarrow> 'b ended" where
  "ends_with trace st r =
     (case r of (code, out, err) \<Rightarrow>
        \<lparr> en_code = code, en_filter = trace, en_out = out, en_err = err, en_state = st \<rparr>)"

definition ctl_main ::
    "main_world \<Rightarrow> 'b control_backend \<Rightarrow> string list \<Rightarrow> 'b control_state \<Rightarrow> 'b ended" where
  "ctl_main mw be args st =
     (case early_exit (mw_shell mw) (mw_rendered mw) (mw_flushed mw) args of
        Some (code, err) \<Rightarrow> ends_with None st (print_both mw (code, [], err))
      | None \<Rightarrow>
     (case mw_parse mw args of
        Err code \<Rightarrow> ends_with None st (code, [], [])
      | Ok c \<Rightarrow>
          (let trace = trace_filter (mw_env_filter mw) (cl_verbose c)
           in case mw_runtime mw of
                Err e \<Rightarrow> ends_with trace st
                  (print_both mw (EXIT_FAILURE, [], [''infmonctl: failed to start runtime: '' @ e]))
              | Ok _ \<Rightarrow>
                  (case block_on mw be c st of (r, st') \<Rightarrow> ends_with trace st' r))))"

section \<open>The codes of the commands\<close>

text \<open>The codes a call on the control socket can end with, and those of each command.\<close>

definition call_codes :: "int set" where
  "call_codes = {0, 1, 3, 4, 6}"

fun command_codes :: "command \<Rightarrow> int set" where
  "command_codes (Install _) = {0, 1, 13}"
| "command_codes (Uninstall _) = {1, 13}"
| "command_codes StartCmd = {0, 1, 13}"
| "command_codes StopCmd = {0, 1, 13}"
| "command_codes RestartCmd = {0, 1, 13}"
| "command_codes StatusCmd = {0, 7, 69}"
| "command_codes (ConfigCmd _) = {1, 13}"
| "command_codes (FlowRuleCmd (RuleAdd _)) = call_codes \<union> {2, 13}"
| "command_codes (FlowRuleCmd (RuleRm _ _)) = call_codes \<union> {13}"
| "command_codes (FlowRuleCmd _) = call_codes"
| "command_codes (StatsCmd _) = call_codes"
| "command_codes (FlowCmd _) = {1}"
| "command_codes (LogCmd _) = {1}"
| "command_codes HealthCmd = {1}"

lemma error_codes: "ctl_error_to_exit_code e \<in> {1, 3, 4, 6}"
  by (cases e) (simp_all add: ctl_error_to_exit_code_def exit_codes)

lemma show_result_code: "fst (show_result w c what r) \<in> call_codes"
  using error_codes by (auto simp: show_result_def failed_call_def call_codes_def exit_codes split: sum.split)

lemma run_install_code: "snd (run_install w force) \<in> {0, 1, 13}"
proof -
  have "snd (install_steps w force) = None \<or> snd (install_steps w force) = Some EXIT_FAILURE"
    using install_steps_step_ok [of w force] by (simp add: step_ok_def)
  then show ?thesis
    unfolding run_install_def install_steps_def [symmetric]
    by (auto simp: exit_codes split: prod.split option.split)
qed

lemma run_lifecycle_code: "fst (run_lifecycle w a) \<in> {0, 1, 13}"
  by (auto simp: run_lifecycle_def needs_root_def exit_codes split: sum.split)

lemma run_status_code: "fst (fst (run_status w be c st)) \<in> {0, 7, 69}"
  by (auto simp: run_status_def Let_def exit_codes split: prod.split)

lemma run_rule_add_code: "fst (fst (run_rule_add w be c spec st)) \<in> call_codes \<union> {2, 13}"
  using error_codes
  by (auto simp: run_rule_add_def needs_root_def failed_call_def call_codes_def exit_codes
      split: sum.split prod.split)

lemma run_rule_rm_code: "fst (fst (run_rule_rm w be c n a st)) \<in> call_codes \<union> {13}"
  using error_codes
  by (auto simp: run_rule_rm_def needs_root_def failed_call_def call_codes_def exit_codes
      split: sum.split prod.split)

lemma run_flow_rule_code: "fst (fst (run_flow_rule w be c cmd st)) \<in> command_codes (FlowRuleCmd cmd)"
  using run_rule_add_code run_rule_rm_code show_result_code
  by (cases cmd) (simp_all add: run_flow_rule_def split_beta)

lemma run_stats_code: "fst (fst (run_stats w be c cmd st)) \<in> call_codes"
  using show_result_code
  by (cases cmd) (simp_all add: run_stats_def Let_def split_beta call_codes_def exit_codes)

lemma stub_codes:
  "fst (run_config w cc) \<in> {1, 13}" "fst (run_flow fc) = 1" "fst (run_log lc) = 1"
  "fst run_health = 1" "fst (run_uninstall w) \<in> {1, 13}"
  by (simp_all add: run_config_def run_flow_def run_log_def run_health_def run_uninstall_def stub_def
      needs_root_def exit_codes split: config_command.split flow_command.split log_command.split)

lemma run_code: "fst (fst (run iw w be c st)) \<in> command_codes (cl_command c)"
  using run_install_code run_lifecycle_code run_status_code run_flow_rule_code run_stats_code stub_codes
  by (cases "cl_command c") (simp_all add: run_def split_beta)

section \<open>Commands of an unprivileged operator\<close>

text \<open>The request a command makes of the frontend whether or not it has root privileges.\<close>

definition open_request :: "command \<Rightarrow> request option" where
  "open_request cmd =
     (case cmd of
        StatusCmd \<Rightarrow> Some (StatsShow \<lparr> ssp_name = None \<rparr>)
      | FlowRuleCmd RuleList \<Rightarrow> Some FlowRuleList
      | FlowRuleCmd (RuleShow target) \<Rightarrow> Some (FlowRuleShow \<lparr> shp_name = target \<rparr>)
      | StatsCmd (StatsShowCmd name _ _) \<Rightarrow> Some (StatsShow \<lparr> ssp_name = name \<rparr>)
      | StatsCmd StatsPullCmd \<Rightarrow> Some StatsPull
      | _ \<Rightarrow> None)"

fun reads_only :: "request \<Rightarrow> bool" where
  "reads_only (FlowRuleAdd _) = False"
| "reads_only (FlowRuleRm _) = False"
| "reads_only _ = True"

lemma open_reads: "open_request cmd = Some req \<Longrightarrow> reads_only req"
  by (auto simp: open_request_def split: command.splits flow_rule_command.splits stats_command.splits)

text \<open>The table of rules with all that belongs to it.\<close>

definition same_rules :: "'b control_state \<Rightarrow> 'b control_state \<Rightarrow> bool" where
  "same_rules st st' \<longleftrightarrow>
     cs_flow_rules st' = cs_flow_rules st \<and> cs_next_rule_id st' = cs_next_rule_id st \<and>
     cs_rule_id_map st' = cs_rule_id_map st \<and> cs_vapi_control st' = cs_vapi_control st"

lemma same_rules_refl [simp]: "same_rules st st"
  by (simp add: same_rules_def)

lemma pull_same_rules: "same_rules st (snd (handle_stats_pull r a st))"
  by (auto simp: same_rules_def handle_stats_pull_def
      split: option.split prod.split sum.split try_send_error.split)

lemma reads_same_rules: "reads_only req \<Longrightarrow> same_rules st (snd (handle_request be pw req st))"
  by (cases req) (simp_all add: handle_request_def pull_same_rules)

lemma server_same_rules:
  assumes "carries_request wi req" "wi_text wi req = Ok t" "reads_only req"
  shows "same_rules st (snd (server_bytes wi be pw (t @ newline) st))"
proof -
  have t: "CHR 0x0A \<notin> set t" "length t < MAX_LINE" "js_parse (wi_json wi) (t @ newline) = Ok req"
    using assms(1,2) by (auto simp: carries_request_def)
  have line: "read_line (t @ newline) = t @ newline"
    using t(1,2) unfolding read_line_def by (subst take_line) (simp_all add: upto_newline_line)
  have "snd (serve_connection (wi_json wi) be pw (t @ newline) st) \<in>
      {st, snd (handle_request be pw req st)}"
    using t(3) by (simp add: serve_connection_def line Let_def split_beta)
  then show ?thesis
    using reads_same_rules [OF assms(3)] by (auto simp: server_bytes_def split_beta split: option.split)
qed

lemma call_same_rules:
  assumes "carries_request wi req" "reads_only req"
  shows "same_rules st (snd (call req decode wi be pw st))"
  using server_same_rules [OF assms(1) _ assms(2), of _ st be pw]
  by (auto simp: call_def rpc_ok_def rpc_def split_beta split: sum.split)

lemma run_same_rules:
  assumes "\<not> cw_root w"
    and "\<forall>req. open_request (cl_command c) = Some req \<longrightarrow> carries_request (cw_wire w) req"
  shows "same_rules st (snd (run iw w be c st))"
proof (cases "cl_command c")
  case StatusCmd
  then show ?thesis
    using assms(2)
    by (auto simp: run_def run_status_def Let_def split_beta client_stats_show_def open_request_def
        intro!: call_same_rules)
next
  case (FlowRuleCmd cmd)
  then show ?thesis
    using assms
    by (cases cmd)
      (auto simp: run_def run_flow_rule_def run_rule_add_def run_rule_rm_def split_beta
        client_flow_rule_list_def client_flow_rule_show_def open_request_def intro!: call_same_rules)
next
  case (StatsCmd cmd)
  then show ?thesis
    using assms(2)
    by (cases cmd)
      (auto simp: run_def run_stats_def Let_def split_beta client_stats_show_def client_stats_pull_def
        open_request_def intro!: call_same_rules)
qed (simp_all add: run_def split_beta)

section \<open>Properties\<close>

lemma print_lines_panic:
  "print_lines reader ls = (ls', True) \<longleftrightarrow> (\<exists>k < length ls. reader = Some k \<and> ls' = take k ls)"
  "print_lines reader ls = (ls', False) \<longleftrightarrow> ls' = ls \<and> (case reader of None \<Rightarrow> True | Some k \<Rightarrow> length ls \<le> k)"
  by (auto simp: print_lines_def split: option.splits)

lemma print_both_code:
  "print_both mw (code, out, err) = (code', out', err') \<Longrightarrow>
   code' = code \<and> out' = out \<and> err' = err \<or>
   code' = 101 \<and> (mw_stdout mw = Some (length out') \<or> mw_stderr mw = Some (length err'))"
  by (auto simp: print_both_def print_lines_def PANIC_CODE_def split: option.splits if_splits prod.splits bool.splits)

text \<open>
  C17. How a run of \<open>infmonctl\<close> ends once it got to its command. When a signal interrupts it
  while it waits it exits 130 or 143 and prints nothing on standard output; otherwise it exits
  with one of its command's codes, among which 5 is of none, 6 only of those about rules and
  statistics, and 7 and 69 of \<open>status\<close> alone. In either case it may exit with 101 instead,
  and then the reader of its output or of its messages went away in the middle. (The trace
  lines of \<open>-v\<close> are not counted, so with them standard error is taken to be read.) And without
  root privileges no command changes the frontend's rules, interrupted or not, provided the
  one request an unprivileged command makes arrives as sent.
\<close>

theorem ctl_main_outcome:
  assumes "early_exit (mw_shell mw) (mw_rendered mw) (mw_flushed mw) args = None"
    "mw_parse mw args = Ok c" "mw_runtime mw = Ok ()" "mw_handlers mw"
    "cl_verbose c = 0 \<or> mw_stderr mw = None"
  shows "let e = ctl_main mw be args st;
      unread = (mw_stdout mw = Some (length (en_out e)) \<or> mw_stderr mw = Some (length (en_err e)))
    in (case interruption mw c of
          Some s \<Rightarrow> en_out e = [] \<and>
            (en_code e = (if s = Sigint then 130 else 143) \<or>
             en_code e = 101 \<and> mw_stderr mw = Some (length (en_err e)))
        | None \<Rightarrow> en_code e \<in> command_codes (cl_command c) \<or> en_code e = 101 \<and> unread) \<and>
       (mw_euid mw \<noteq> 0 \<longrightarrow>
        (\<forall>req. open_request (cl_command c) = Some req \<longrightarrow>
           carries_request (mw_wire mw (make_client c)) req) \<longrightarrow>
        same_rules st (en_state e))"
proof -
  obtain code out err st' where r: "run (install_host mw) (command_host mw c) be c st = ((code, out, err), st')"
    by (metis surj_pair)
  have code: "code \<in> command_codes (cl_command c)"
    using run_code [of "install_host mw" "command_host mw c" be c st] by (simp add: r)
  have safe: "same_rules st st'" if "mw_euid mw \<noteq> 0"
      "\<forall>req. open_request (cl_command c) = Some req \<longrightarrow> carries_request (mw_wire mw (make_client c)) req"
    using run_same_rules [of "command_host mw c" c st "install_host mw" be] that
    by (simp add: r is_root_def)
  have main: "ctl_main mw be args st =
      (case block_on mw be c st of (r, st') \<Rightarrow>
         ends_with (trace_filter (mw_env_filter mw) (cl_verbose c)) st' r)"
    using assms by (simp add: ctl_main_def Let_def)
  obtain heard panicked where p: "print_lines (mw_stderr mw) (take (said_before mw c) err) = (heard, panicked)"
    by fastforce
  show ?thesis
  proof (cases panicked)
    case True
    then have "block_on mw be c st = ((101, [], heard), st)"
      using assms(4) p by (simp add: block_on_def r PANIC_CODE_def)
    moreover have "mw_stderr mw = Some (length heard)"
      using p True by (auto simp: print_lines_panic)
    ultimately show ?thesis by (auto simp: main ends_with_def Let_def split: option.split)
  next
    case False
    show ?thesis
    proof (cases "interruption mw c")
      case None
      obtain code' out' err' where b: "print_both mw (code, out, err) = (code', out', err')"
        by (metis surj_pair)
      have "block_on mw be c st = ((code', out', err'), st')"
        using assms(4) p False None b by (simp add: block_on_def r)
      then show ?thesis
        using code safe print_both_code [OF b] None by (auto simp: main ends_with_def Let_def)
    next
      case (Some s)
      then have "block_on mw be c st = ((signal_code s, [], heard), if mw_request_done mw then st' else st)"
        using assms(4) p False by (simp add: block_on_def r)
      then show ?thesis
        using safe Some
        by (cases s) (auto simp: main ends_with_def Let_def exit_codes EXIT_SIGINT_def EXIT_SIGTERM_def)
    qed
  qed
qed

text \<open>An operator without privileges lists the rules and presses Ctrl-C.\<close>

definition sample_list_cli :: cli where
  "sample_list_cli = sample_cli\<lparr>cl_command := FlowRuleCmd RuleList\<rparr>"

definition sample_install :: install_world where
  "sample_install =
     \<lparr> iw_root = False, iw_cmd = (\<lambda>_ _. Err []), iw_mkdir = (\<lambda>_. Ok ()), iw_write = (\<lambda>_. Ok ()),
       iw_chmod = (\<lambda>_. Ok ()), iw_exists = (\<lambda>_. False), iw_read = (\<lambda>_. None),
       iw_beside_exe = None, iw_yaml = (\<lambda>_. Ok []) \<rparr>"

definition sample_main :: main_world where
  "sample_main =
     \<lparr> mw_shell = (\<lambda>_. False), mw_rendered = Ok (), mw_flushed = Ok (), mw_parse = (\<lambda>_. Ok sample_list_cli),
       mw_env_filter = None, mw_runtime = Ok (), mw_handlers = True, mw_signal = Some Sigint,
       mw_request_done = True, mw_said = 0, mw_stdout = Some 0, mw_stderr = None, mw_euid = 1000, mw_install = sample_install,
       mw_host = sample_cli_world,
       mw_wire = (\<lambda>_. sample_wire\<lparr> wi_json := \<lparr> js_utf8 = (\<lambda>_. True), js_parse = (\<lambda>_. Ok FlowRuleList) \<rparr> \<rparr>) \<rparr>"

theorem ctl_main_outcome_witness:
  "en_code (ctl_main sample_main counting_backend [''infmonctl'', ''flow-rule'', ''list''] (control_new [sample_def])) = 130 \<and>
   cs_flow_rules (en_state (ctl_main sample_main counting_backend [''infmonctl'', ''flow-rule'', ''list'']
     (control_new [sample_def]))) = [sample_def]"
proof -
  have early: "early_exit (mw_shell sample_main) (mw_rendered sample_main) (mw_flushed sample_main)
      [''infmonctl'', ''flow-rule'', ''list''] = None"
    by (simp add: COMPLETIONS_FLAG_def strip_prefix_def)
  have parse: "mw_parse sample_main [''infmonctl'', ''flow-rule'', ''list''] = Ok sample_list_cli"
    and up: "mw_runtime sample_main = Ok ()" "mw_handlers sample_main" "mw_euid sample_main \<noteq> 0"
    by (simp_all add: sample_main_def)
  have read: "mw_stderr sample_main = None" by (simp add: sample_main_def)
  then have quiet: "cl_verbose sample_list_cli = 0 \<or> mw_stderr sample_main = None" by simp
  have hit: "interruption sample_main sample_list_cli = Some Sigint"
    by (simp add: interruption_def may_wait_def sample_main_def sample_list_cli_def)
  have wire: "\<forall>req. open_request (cl_command sample_list_cli) = Some req \<longrightarrow>
      carries_request (mw_wire sample_main (make_client sample_list_cli)) req"
    by (simp add: open_request_def sample_list_cli_def carries_request_def sample_main_def sample_wire_def MAX_LINE_def)
  show ?thesis
    using ctl_main_outcome [OF early parse up(1,2) quiet, of counting_backend "control_new [sample_def]"] hit up(3) wire read
    by (simp add: Let_def same_rules_def control_new_def)
qed

text \<open>
  When the reader of standard output has gone, adding a rule exits 101 although the rule was
  added: an operator's script takes the addition for failed.
\<close>

theorem broken_pipe_after_add:
  assumes "early_exit (mw_shell mw) (mw_rendered mw) (mw_flushed mw) args = None" "mw_parse mw args = Ok c"
    "mw_runtime mw = Ok ()" "mw_handlers mw" "mw_signal mw = None" "mw_stdout mw = Some 0"
    "mw_euid mw = 0" "cl_command c = FlowRuleCmd (RuleAdd spec)" "parse_spec spec = Ok r"
    "carries (mw_wire mw (make_client c)) be (cw_pull (mw_host mw)) (FlowRuleAdd (params_of r)) st"
    "fr_name r \<notin> fr_name ` set (cs_flow_rules st)" "cs_vapi_control st = None"
  shows "en_code (ctl_main mw be args st) = 101 \<and>
    cs_flow_rules (en_state (ctl_main mw be args st)) = cs_flow_rules st @ [r]"
proof -
  let ?w = "command_host mw c"
  have "client_flow_rule_add r (mw_wire mw (make_client c)) be (cw_pull (mw_host mw)) st =
      (Ok \<lparr> id_hi = cs_next_rule_id st, id_lo = 0 \<rparr>,
       (added_to st r)\<lparr>cs_next_rule_id := cs_next_rule_id st + 1\<rparr>)"
    using client_add_exact [OF assms(10)] assms(11,12) by simp
  then have "\<exists>out. run (install_host mw) ?w be c st =
      ((EXIT_SUCCESS, out, []), (added_to st r)\<lparr>cs_next_rule_id := cs_next_rule_id st + 1\<rparr>) \<and> out \<noteq> []"
    using assms(7-9)
    by (simp add: run_def run_flow_rule_def run_rule_add_def is_root_def table_of_def split: output_format.split)
  then obtain out where out: "run (install_host mw) ?w be c st =
      ((EXIT_SUCCESS, out, []), (added_to st r)\<lparr>cs_next_rule_id := cs_next_rule_id st + 1\<rparr>)" "out \<noteq> []"
    by blast
  have "print_lines reader [] = ([], False)" for reader
    by (simp add: print_lines_def split: option.split)
  then have "block_on mw be c st =
      ((101, [], []), (added_to st r)\<lparr>cs_next_rule_id := cs_next_rule_id st + 1\<rparr>)"
    using assms(4-6) out(2)
    by (simp add: block_on_def out(1) interruption_def print_both_def print_lines_def [of "Some 0"] PANIC_CODE_def)
  then show ?thesis
    using assms(1-3) by (simp add: ctl_main_def ends_with_def added_to_def Let_def)
qed

end
