(* ===== verification/Spec2Isabelle.thy ===== *)
theory Spec2Isabelle
  imports Crud Pipeline Started Threads Server Logging AttrTypes ControlClient CliMain
begin

text \<open>
  InFMon is a flow telemetry service. A VPP plugin in C counts packets and bytes per flow; the
  Rust programs under \<open>src/\<close> configure it, read its counters, and export them. This development
  models the Rust code: the configuration library and the control protocol (\<open>src/common\<close>), the
  frontend daemon (\<open>src/frontend\<close>) and the operator's command line (\<open>src/cli\<close>).

  Parts and how they meet. The daemon reads a configuration, validates it and starts
  (\<open>lifecycle.rs\<close>). Its poller thread calls the backend's snapshot-and-clear through a C shim
  (\<open>vapi_stats_client.rs\<close>), decodes what it gets (\<open>poller.rs\<close>, \<open>decode.rs\<close>) and sends every
  snapshot to the exporter threads and to the control server over bounded channels
  (\<open>exporter.rs\<close>). The OTLP exporter turns a snapshot into metrics, cuts them into batches and
  sends them with retries (\<open>otlp.rs\<close>). The control server (\<open>control.rs\<close>) holds the table of
  flow rules, forwards additions and removals to the backend (\<open>vapi_control_client.rs\<close>) and
  answers the command line (\<open>control_client.rs\<close>, \<open>src/cli\<close>) over a socket with one JSON line
  each way.

  Theories, in the order of their dependence.
  \<^item> \<open>Prelude\<close>: words for \<open>u8\<close> to \<open>u64\<close>, the sum for \<open>Result\<close>, saturating arithmetic,
    durations in nanoseconds. \<open>RustStr\<close>: byte strings, trimming, splitting, integer parsing
    and printing, with their round trips.
  \<^item> \<open>ConfigModel\<close> (\<open>config/model.rs\<close>), \<open>Validate\<close> (\<open>config/validate.rs\<close>): the configuration
    and its validation; acceptance is equivalent to \<open>config_ok\<close>, which states what a valid
    configuration is without the order of the checks.
  \<^item> \<open>Steps\<close>: reachability of a step relation, with locales for an invariant every step keeps
    and for progress every step respects; \<open>Control\<close>, \<open>Pipeline\<close> and \<open>Delivery\<close> interpret them.
  \<^item> \<open>RuleStore\<close>: the interface of a table of flow rules, as a locale over a finite map, with
    the refinement of every history of operations. \<open>Crud\<close> (\<open>config/crud.rs\<close>,
    \<open>config/parse.rs\<close>) and \<open>Control\<close> interpret it.
  \<^item> \<open>IpcTypes\<close> (\<open>ipc/types.rs\<close>, \<open>ipc/stats_client.rs\<close>), \<open>Decode\<close> (\<open>ipc/decode.rs\<close>): the
    data between backend and frontend; decoding a key inverts its layout.
  \<^item> \<open>KeyedMerge\<close>: the interface of a fold that merges records by key, interpreted by the
    worker merge of \<open>VapiClient\<close> (\<open>vapi_stats_client.rs\<close>, \<open>vapi_control_client.rs\<close>) and by the
    slot merge of \<open>Poller\<close> (\<open>poller.rs\<close>).
  \<^item> \<open>Backoff\<close>: the interface of a doubling backoff with a ceiling, interpreted by the poller's
    reconnects and the exporter thread. \<open>Channel\<close> (\<open>exporter.rs\<close>): bounded channels with the
    interface of a bounded queue.
  \<^item> \<open>PollLoop\<close> (\<open>poller.rs\<close>): one turn of the tick loop as a function of the loop's variables
    and the world's answers, runs over sequences of turns, the interruptible sleep; and a
    snapshot from the backend's answers on, decoded as the code does with an empty schema.
  \<^item> \<open>IpText\<close>, \<open>Protocol\<close> (\<open>ipc/protocol.rs\<close>), \<open>Control\<close> (\<open>control.rs\<close>): addresses as text, the
    messages, and the server: one request is one step, histories are an inductive relation,
    and any sequence of requests refines the contract \<open>served\<close> on finite maps.
  \<^item> \<open>Exporter\<close> (\<open>exporter.rs\<close>): metrics, errors, registration, and the exporter thread over any
    plugin. \<open>OtlpAttrs\<close>, \<open>OtlpRequest\<close>, \<open>OtlpExport\<close>, \<open>OtlpSend\<close> (\<open>otlp.rs\<close>): attributes,
    the request with its point budget, the slicing into batches, the sending with retries, the
    accounting of every counter, and what is left when the framework's deadline cuts an export
    off at one of its waits.
  \<^item> \<open>AttrTypes\<close>: from a decoded key to typed attributes, across \<open>decode.rs\<close> and \<open>otlp.rs\<close>.
  \<^item> \<open>UnixPath\<close>: \<open>Path::parent\<close> and \<open>Path::file_name\<close> of the standard library, against the
    components of a path. \<open>Logging\<close> (\<open>logging.rs\<close>): filter, destination and log file, and
    the panic when that file cannot be created.
  \<^item> \<open>Server\<close> (\<open>control.rs\<close>): spawning the control server, its accept loop and its stop, over a
    small model of sockets in the file system.
  \<^item> \<open>Lifecycle\<close> (\<open>lifecycle.rs\<close>, \<open>main.rs\<close>): start, reload, stop and what happens on a
    drop; the control server is spawned and stopped by the operations of \<open>Server\<close>.
  \<^item> \<open>Pipeline\<close>: the poller, the snapshot thread and the control thread as interleaved steps
    over the latest snapshot. \<open>Delivery\<close>: the poller, the exporter threads and their channels as
    interleaved steps; its invariant relates every exporter to the sequential thread of
    \<open>Exporter\<close> and the poller to the undisturbed loop of \<open>PollLoop\<close>. \<open>Started\<close>: what
    a configuration file starts is such a system, so the same holds of every configured exporter.
    \<open>Threads\<close>: clocks, the loop without VAPI, and the handles of poller and exporter threads.
  \<^item> \<open>ControlClient\<close> (\<open>ipc/control_client.rs\<close>): one exchange with the server and the typed calls.
    \<open>Cli\<close>, \<open>Install\<close> (\<open>src/cli\<close>): specifications, tables, commands, exit codes, the installer.
    \<open>CliMain\<close>: the process around a command, with its signal tasks, the readers of its two
    streams, its exit code, and what an operator without root privileges can change.

  Reading the model. A record is the struct of the code, a datatype its enum; a field's prefix
  is the type's initials. Unsigned integers are words and wrap as in a release build; a
  \<open>usize\<close> that only counts is a natural number. Code outside \<open>src/\<close> and the operating system
  are arguments: serde's parsing and rendering, the C API of the backend, sockets, clocks,
  systemd, gRPC. Where a property needs them to behave, a named hypothesis says so
  (\<open>host_ready\<close>, \<open>carries\<close>) and a witness instantiates it. A hash map is its list of
  entries, and the order it is iterated in is a parameter wherever it can be seen.

  Loops and bounds. The tick loop is modelled turn by turn, so its run is any finite sequence
  of turns and needs no fuel; the exporter loop is a recursion over the snapshots its channel
  delivers; the sleeping and probing loops are functions with a measure (the remaining time);
  the retry loop recurses over the list of its four attempts.

  What the properties show, by group: validation and the rule tables are exact against an
  abstract specification; decoding and identifiers round-trip; merging neither loses nor
  invents counts up to saturation, though no key is decoded yet and no flow reported; snapshots are numbered, spaced by the exact clock difference
  and delivered, to every exporter as if it ran alone on a subsequence of them, until its queue is
  drained at shutdown; the control server answers every connection until it is stopped;
  requests to the collector stay within their budgets and batches within their size with every
  point kept; errors of an export are counted as stated, twice where the code does so; the
  daemon starts exactly on valid configurations with a reachable backend and can be stopped
  exactly as long as its control socket is in place; the command line's exit codes follow from what the server did.

  Not modelled. The C plugin and its shim (\<open>src/backend\<close>, \<open>vapi_ffi/*.c\<close>), code generation and
  linking (\<open>build.rs\<close>), the tracing crates (\<open>Logging\<close> models what the daemon asks of them; it never
  asks for the configured destination), clap's argument grammar, the generators of
  shell completions and manual pages behind \<open>early_exit\<close>, the trace lines of \<open>-v\<close>, how signals are registered and woken
  (what a signal task sees is an input of \<open>CliMain\<close>), and the tests.
\<close>

section \<open>Polled counters and the control server\<close>

lemma decoded_names:
  "fr \<in> set (sn_flow_rules (decode_snapshot rank raw t wall mono_ns prev)) \<Longrightarrow> length (rs_name fr) = 33"
  by (auto simp: decode_snapshot_def decode_descriptor_def Let_def)

lemma stats_named_decoded:
  "length n \<noteq> 33 \<Longrightarrow> stats_named (Some (decode_snapshot rank raw t wall mono_ns prev)) n = None"
  using decoded_names by (fastforce simp: stats_named_def find_None_iff_all)

definition no_stats :: "flow_rule \<Rightarrow> flow_rule_stats_data" where
  "no_stats r =
     \<lparr> sd_name = fr_name r, sd_packets = 0, sd_bytes = 0, sd_evictions = 0, sd_drops = 0,
       sd_active_flows = 0 \<rparr>"

definition selected :: "string option \<Rightarrow> flow_rule \<Rightarrow> bool" where
  "selected name_filter r \<longleftrightarrow> (case name_filter of None \<Rightarrow> True | Some n \<Rightarrow> fr_name r = n)"

lemma stats_show_loop_decoded:
  "list_all (\<lambda>r. length (fr_name r) \<noteq> 33) rules \<Longrightarrow>
   stats_show_loop name_filter (Some (decode_snapshot rank raw t wall mono_ns prev)) rules =
     map no_stats (filter (selected name_filter) rules)"
  by (induction rules)
    (auto simp: stats_named_decoded stats_data_of_def no_stats_def selected_def split: option.splits)

lemma valid_names_short: "rules_ok rules \<Longrightarrow> list_all (\<lambda>r. length (fr_name r) \<noteq> 33) rules"
  by (auto simp: rules_ok_def rule_ok_def list_all_iff dest!: name_ok_length)

section \<open>Properties\<close>

text \<open>
  C22. Whatever the backend counted, \<open>stats show\<close> reports zero for every rule of a validated
  configuration once the poller's snapshot has arrived: the decoder names the rules of a
  snapshot by their 33-character identifiers, the server looks them up by their configured
  names, and no valid name has that length.
\<close>

theorem polled_stats_invisible:
  assumes "rules_ok (cs_flow_rules st)"
  shows "handle_stats_show params (update_snapshot (decode_snapshot rank raw t wall mono_ns prev) st) =
    response_ok (RStatsShow
      \<lparr> ss_flow_rules = map no_stats (filter (selected (ssp_name params)) (cs_flow_rules st)) \<rparr>)"
  using stats_show_loop_decoded [OF valid_names_short [OF assms]]
  by (simp add: handle_stats_show_def update_snapshot_def)

theorem polled_stats_invisible_witness:
  "handle_stats_show \<lparr> ssp_name = None \<rparr>
     (update_snapshot
       (decode_snapshot (\<lambda>_. 0)
         \<lparr> raw_descriptors = [\<lparr> de_flow_rule_id = \<lparr> id_hi = 1, id_lo = 0 \<rparr>, de_flow_rule_index = 0,
             de_generation = 1, de_epoch_ns = 0, de_slots = [], de_key_arena = [],
             de_insert_failed = 9, de_table_full = 0 \<rparr>] \<rparr> 1 0 0 0)
       (control_new [sample_def] :: unit control_state)) =
   response_ok (RStatsShow \<lparr> ss_flow_rules = [no_stats sample_def] \<rparr>)"
proof -
  have ok: "rules_ok (cs_flow_rules (control_new [sample_def] :: unit control_state))"
    by (simp add: control_new_def sample_def_def rules_ok_def rule_ok_def name_ok_def lead_chars_def
        rest_chars_def)
  show ?thesis
    using polled_stats_invisible [OF ok, of "\<lparr> ssp_name = None \<rparr>"]
    by (simp add: control_new_def selected_def)
qed

end
